theory Spec2Isabelle
  imports Main "HOL-Library.AList"
begin

section \<open>JavaScript values\<close>

text \<open>
  The payloads of the pipeline are parsed JSON. A property that is absent reads as
  \<open>undefined\<close>, which is not a JSON value: a JavaScript value is \<open>None\<close>
  (undefined) or \<open>Some\<close> of a JSON value. Numbers are the integers (ranks, sizes).
  An object is an association list from property names to values.
\<close>

datatype json =
    JNull
  | JBool bool
  | JNum int
  | JStr string
  | JArr "json list"
  | JObj "(string \<times> json) list"

type_synonym jsval = "json option"

text \<open>
  What the scripts throw: \<open>new Error(message)\<close>, the TypeError of a property read on
  \<open>null\<close>/\<open>undefined\<close> or of a call of a method that is not there, the rejection
  of an HTTP request, and the rejection of a file-system call.
\<close>

datatype js_error =
    Error string
  | TypeError
  | RequestError string
  | SystemError string

text \<open>\<open>v.k\<close> for a value \<open>v\<close> that is neither \<open>null\<close> nor \<open>undefined\<close>, and a
  name \<open>k\<close> that is no built-in property: only an object has it.\<close>

fun getProp :: "json \<Rightarrow> string \<Rightarrow> jsval" where
  "getProp (JObj props) k = map_of props k"
| "getProp v k = None"

text \<open>\<open>!!v\<close>: the values \<open>undefined\<close>, \<open>null\<close>, \<open>false\<close>, \<open>0\<close> and \<open>\"\"\<close> are falsy.\<close>

fun truthy :: "jsval \<Rightarrow> bool" where
  "truthy None = False"
| "truthy (Some JNull) = False"
| "truthy (Some (JBool b)) = b"
| "truthy (Some (JNum n)) = (n \<noteq> 0)"
| "truthy (Some (JStr s)) = (s \<noteq> [])"
| "truthy (Some (JArr xs)) = True"
| "truthy (Some (JObj props)) = True"

text \<open>\<open>typeof v === 'string'\<close>.\<close>

fun isString :: "jsval \<Rightarrow> bool" where
  "isString (Some (JStr s)) = True"
| "isString v = False"

section \<open>Strings\<close>

text \<open>\<open>s.includes(k)\<close>: \<open>k\<close> occurs in \<open>s\<close> as a contiguous run; the empty string
  occurs in every string.\<close>

fun startsWith :: "string \<Rightarrow> string \<Rightarrow> bool" where
  "startsWith s [] = True"
| "startsWith [] (k # ks) = False"
| "startsWith (c # s) (k # ks) = (c = k \<and> startsWith s ks)"

fun str_includes :: "string \<Rightarrow> string \<Rightarrow> bool" where
  "str_includes [] k = (k = [])"
| "str_includes (c # s) k = (startsWith (c # s) k \<or> str_includes s k)"

text \<open>
  \<open>String.prototype.toLowerCase\<close> belongs to the host, not to the repository: the
  functions below take it as the parameter \<open>lower\<close>, and what is proved of them holds for
  every such function. \<open>asciiLower\<close> is its restriction to ASCII text, where it maps
  \<open>A\<close>..\<open>Z\<close> to \<open>a\<close>..\<open>z\<close> and leaves every other character alone; the concrete
  runs below use it on ASCII strings.
\<close>

definition lowerChar :: "char \<Rightarrow> char" where
  "lowerChar c =
     (case map_of (zip ''ABCDEFGHIJKLMNOPQRSTUVWXYZ'' ''abcdefghijklmnopqrstuvwxyz'') c of
        Some d \<Rightarrow> d
      | None \<Rightarrow> c)"

definition asciiLower :: "string \<Rightarrow> string" where
  "asciiLower s = map lowerChar s"

text \<open>\<open>v.toLowerCase()\<close> on a JavaScript value: a TypeError unless \<open>v\<close> is a string.\<close>

fun toLowerCase :: "(string \<Rightarrow> string) \<Rightarrow> jsval \<Rightarrow> js_error + string" where
  "toLowerCase lower (Some (JStr s)) = Inr (lower s)"
| "toLowerCase lower v = Inl TypeError"

section \<open>VideoMatcher: scoring the candidates of a search (get-youtube-links.js)\<close>

text \<open>One item of the search response: \<open>video.id.videoId\<close> and the fields of
  \<open>video.snippet\<close> that the script reads.\<close>

record video =
  id_videoId :: string
  snippet_title :: string
  snippet_channelTitle :: string
  snippet_publishedAt :: string
  snippet_thumbnails :: json

definition officialKeywords :: "string \<Rightarrow> string list" where
  "officialKeywords artistLower = [''vevo'', ''records'', ''music'', ''official'', artistLower]"

definition excludeKeywords :: "string list" where
  "excludeKeywords = [''cover'', ''remix'', ''live'', ''acoustic'', ''karaoke'', ''instrumental'']"

text \<open>The two inner loops, each left by \<open>break\<close> at the first keyword found.\<close>

fun officialLoop :: "string \<Rightarrow> string list \<Rightarrow> int \<Rightarrow> int" where
  "officialLoop channelTitle [] score = score"
| "officialLoop channelTitle (keyword # rest) score =
     (if str_includes channelTitle keyword then score + 10
      else officialLoop channelTitle rest score)"

fun excludeLoop :: "string \<Rightarrow> string list \<Rightarrow> int \<Rightarrow> int" where
  "excludeLoop videoTitle [] score = score"
| "excludeLoop videoTitle (keyword # rest) score =
     (if str_includes videoTitle keyword then score - 5
      else excludeLoop videoTitle rest score)"

text \<open>
  The body of the outer loop, up to the comparison with the running best: the score of
  one video. \<open>artistLower\<close> is \<open>artist.toLowerCase()\<close>, which the function has already
  evaluated for its keyword list; \<open>title.toLowerCase()\<close> is evaluated only when the
  left operand of \<open>&&\<close> holds, and throws there when \<open>title\<close> is not a string.
  The elements of a parsed response are pairwise distinct objects, so
  \<open>videos.indexOf(video) === 0\<close> holds exactly in the first iteration: \<open>idx\<close> is the
  position of the iteration.
\<close>

definition scoreVideo ::
  "(string \<Rightarrow> string) \<Rightarrow> string \<Rightarrow> jsval \<Rightarrow> nat \<Rightarrow> video \<Rightarrow> js_error + int" where
  "scoreVideo lower artistLower title idx v =
     (let score0 = 0;
          channelTitle = lower (snippet_channelTitle v);
          videoTitle = lower (snippet_title v);
          score1 = officialLoop channelTitle (officialKeywords artistLower) score0;
          accuracy =
            (if str_includes videoTitle artistLower
             then (case toLowerCase lower title of
                     Inl e \<Rightarrow> Inl e
                   | Inr titleLower \<Rightarrow> Inr (str_includes videoTitle titleLower))
             else Inr False)
      in case accuracy of
           Inl e \<Rightarrow> Inl e
         | Inr both \<Rightarrow>
            (let score2 = (if both then score1 + 5 else score1);
                 score3 = (if str_includes videoTitle ''official''
                              \<or> str_includes videoTitle ''music video''
                           then score2 + 3 else score2);
                 score4 = excludeLoop videoTitle excludeKeywords score3;
                 score5 = (if idx = 0 then score4 + 2 else score4)
             in Inr score5))"

text \<open>The outer loop: \<open>bestVideo\<close> starts as \<open>null\<close>, \<open>bestScore\<close> as 0, and a video
  replaces the running best only when its score is strictly greater.\<close>

fun findBestLoop ::
  "(string \<Rightarrow> string) \<Rightarrow> string \<Rightarrow> jsval \<Rightarrow> nat \<Rightarrow> video list
     \<Rightarrow> video option \<Rightarrow> int \<Rightarrow> js_error + video option" where
  "findBestLoop lower artistLower title idx [] bestVideo bestScore = Inr bestVideo"
| "findBestLoop lower artistLower title idx (v # rest) bestVideo bestScore =
     (case scoreVideo lower artistLower title idx v of
        Inl e \<Rightarrow> Inl e
      | Inr score \<Rightarrow>
          if score > bestScore
          then findBestLoop lower artistLower title (Suc idx) rest (Some v) score
          else findBestLoop lower artistLower title (Suc idx) rest bestVideo bestScore)"

definition findBestVideo ::
  "(string \<Rightarrow> string) \<Rightarrow> video list \<Rightarrow> jsval \<Rightarrow> jsval \<Rightarrow> js_error + video option" where
  "findBestVideo lower videos artist title =
     (case toLowerCase lower artist of
        Inl e \<Rightarrow> Inl e
      | Inr artistLower \<Rightarrow> findBestLoop lower artistLower title 0 videos None 0)"

text \<open>The score of a candidate when artist and track title are strings, as the outer
  loop computes it (the \<open>Inl\<close> branch is never taken then, see \<open>scoreVideo_string\<close>).\<close>

definition computedScore ::
  "(string \<Rightarrow> string) \<Rightarrow> string \<Rightarrow> string \<Rightarrow> nat \<Rightarrow> video \<Rightarrow> int" where
  "computedScore lower artist title idx v =
     (case scoreVideo lower (lower artist) (Some (JStr title)) idx v of
        Inr score \<Rightarrow> score
      | Inl e \<Rightarrow> 0)"

section \<open>Template literals\<close>

text \<open>
  \<open>`${v}`\<close>: the string a template literal makes of a value. An array is its elements
  joined by commas, \<open>null\<close> elements left empty; an object is \<open>[object Object]\<close>
  (an object with a \<open>toString\<close> property of its own is outside the model).
\<close>

function showNat :: "nat \<Rightarrow> string" where
  "showNat n =
     (if n < 10 then [''0123456789'' ! n]
      else showNat (n div 10) @ [''0123456789'' ! (n mod 10)])"
  by pat_completeness auto
termination
  by (relation "measure (\<lambda>n. n)") auto

declare showNat.simps [simp del]

fun joinWith :: "string \<Rightarrow> string list \<Rightarrow> string" where
  "joinWith sep [] = []"
| "joinWith sep [x] = x"
| "joinWith sep (x # y # rest) = x @ sep @ joinWith sep (y # rest)"

fun jsonToString :: "json \<Rightarrow> string" where
  "jsonToString JNull = ''null''"
| "jsonToString (JBool b) = (if b then ''true'' else ''false'')"
| "jsonToString (JNum n) = (if n < 0 then ''-'' @ showNat (nat (- n)) else showNat (nat n))"
| "jsonToString (JStr s) = s"
| "jsonToString (JArr xs) =
     joinWith '','' (map (\<lambda>x. if x = JNull then [] else jsonToString x) xs)"
| "jsonToString (JObj props) = ''[object Object]''"

fun templateStr :: "jsval \<Rightarrow> string" where
  "templateStr None = ''undefined''"
| "templateStr (Some v) = jsonToString v"

section \<open>VideoMatcher: one search, and the loop over the entries (get-youtube-links.js)\<close>

text \<open>
  The search provider is outside the program. \<open>search_list w q\<close> is what
  \<open>youtube.search.list\<close> answers to the query \<open>q\<close> in the state \<open>w\<close> of the world,
  with the world after the call: \<open>Inl\<close> when the request is rejected (or the response has
  no list of items, which throws at \<open>videos.length\<close>), \<open>Inr\<close> of \<open>response.data.items\<close>
  otherwise.
\<close>

type_synonym 'w search_api = "'w \<Rightarrow> string \<Rightarrow> (js_error + video list) \<times> 'w"

text \<open>The object \<open>searchYouTubeVideo\<close> returns for the video it has chosen.\<close>

definition videoMatch :: "video \<Rightarrow> json" where
  "videoMatch officialVideo =
     JObj [(''videoId'', JStr (id_videoId officialVideo)),
           (''url'', JStr (''https://www.youtube.com/watch?v='' @ id_videoId officialVideo)),
           (''title'', JStr (snippet_title officialVideo)),
           (''channelTitle'', JStr (snippet_channelTitle officialVideo)),
           (''publishedAt'', JStr (snippet_publishedAt officialVideo)),
           (''thumbnails'', snippet_thumbnails officialVideo)]"

text \<open>
  Everything after the query is built stands in \<open>try\<close>, and the \<open>catch\<close> returns
  \<open>null\<close>: a rejected request and a TypeError of \<open>findBestVideo\<close> both end as
  \<open>JNull\<close>, as do an empty result list and a list in which no video is chosen.
\<close>

definition searchYouTubeVideo ::
  "(string \<Rightarrow> string) \<Rightarrow> 'w search_api \<Rightarrow> 'w \<Rightarrow> jsval \<Rightarrow> jsval \<Rightarrow> json \<times> 'w" where
  "searchYouTubeVideo lower search_list w artist title =
     (let query = templateStr artist @ '' '' @ templateStr title
      in case search_list w query of
           (Inl e, w') \<Rightarrow> (JNull, w')
         | (Inr videos, w') \<Rightarrow>
             if length videos = 0 then (JNull, w')
             else (case findBestVideo lower videos artist title of
                     Inl e \<Rightarrow> (JNull, w')
                   | Inr None \<Rightarrow> (JNull, w')
                   | Inr (Some officialVideo) \<Rightarrow> (videoMatch officialVideo, w')))"

text \<open>
  \<open>creditsData\<close> is the data of \<open>latest-credits.json\<close>: a list of objects (the credits
  stage lets nothing else through), each given by its properties.
  \<open>{...item, youtube: youtubeData}\<close> is the item with its \<open>youtube\<close> property set.
  \<open>searchYouTubeVideo\<close> catches what its body throws, so the \<open>catch\<close> of this loop,
  which pushes the item with \<open>youtube: null\<close> as well, is not reached; the pause
  between two requests is time and is left out.
\<close>

type_synonym entry = "(string \<times> json) list"

fun collectLoop ::
  "(string \<Rightarrow> string) \<Rightarrow> 'w search_api \<Rightarrow> entry list \<Rightarrow> entry list \<Rightarrow> 'w
     \<Rightarrow> entry list \<times> 'w" where
  "collectLoop lower search_list [] results w = (results, w)"
| "collectLoop lower search_list (item # rest) results w =
     (case searchYouTubeVideo lower search_list w (map_of item ''artist'') (map_of item ''title'') of
        (youtubeData, w') \<Rightarrow>
          collectLoop lower search_list rest
            (results @ [AList.update ''youtube'' youtubeData item]) w')"

definition collectAllYouTubeLinks ::
  "(string \<Rightarrow> string) \<Rightarrow> 'w search_api \<Rightarrow> entry list \<Rightarrow> 'w \<Rightarrow> entry list \<times> 'w" where
  "collectAllYouTubeLinks lower search_list creditsData w =
     collectLoop lower search_list creditsData [] w"

text \<open>
  For the statements about the loop: the state of the world in which the entry at the
  position \<open>i\<close> is searched for (the one the loop over the entries before it leaves),
  what that search returns, and what it is for an answer of the provider to give no
  usable candidate (a rejected request, an empty list, a list in which nothing is
  chosen).
\<close>

definition worldBefore ::
  "(string \<Rightarrow> string) \<Rightarrow> 'w search_api \<Rightarrow> entry list \<Rightarrow> 'w \<Rightarrow> nat \<Rightarrow> 'w" where
  "worldBefore lower search_list creditsData w i =
     snd (collectAllYouTubeLinks lower search_list (take i creditsData) w)"

definition searchOf ::
  "(string \<Rightarrow> string) \<Rightarrow> 'w search_api \<Rightarrow> entry list \<Rightarrow> 'w \<Rightarrow> nat \<Rightarrow> json" where
  "searchOf lower search_list creditsData w i =
     fst (searchYouTubeVideo lower search_list (worldBefore lower search_list creditsData w i)
            (map_of (creditsData ! i) ''artist'') (map_of (creditsData ! i) ''title''))"

definition noUsableCandidate ::
  "(string \<Rightarrow> string) \<Rightarrow> js_error + video list \<Rightarrow> jsval \<Rightarrow> jsval \<Rightarrow> bool" where
  "noUsableCandidate lower answer artist title =
     (case answer of
        Inl e \<Rightarrow> True
      | Inr videos \<Rightarrow>
          videos = [] \<or>
          (case findBestVideo lower videos artist title of
             Inl e \<Rightarrow> True
           | Inr None \<Rightarrow> True
           | Inr (Some v) \<Rightarrow> False))"

section \<open>CreditsTaskClient: polling the remote task (trigger-manus-agent.js)\<close>

text \<open>
  \<open>get w\<close> is what \<open>manusClient.get\<close> answers for the task in the state \<open>w\<close> of the
  world, with the world after the call: \<open>Inl\<close> when the request is rejected, \<open>Inr\<close> of
  \<open>response.data\<close> otherwise. The loop of \<open>waitForTaskCompletion\<close> runs while
  \<open>attempts < maxAttempts\<close>; the \<open>catch\<close> logs and rethrows, so every error leaves the
  function as it is. The bound is the loop's parameter here, and the function is the loop
  at the bound the source fixes, 60. The pause of 30 seconds is time and is left out.
\<close>

type_synonym 'w task_api = "'w \<Rightarrow> (js_error + json) \<times> 'w"

definition timeoutError :: js_error where
  "timeoutError = Error ''Task timeout: Credits collection took too long''"

definition taskFailedError :: "jsval \<Rightarrow> js_error" where
  "taskFailedError err = Error (''Task failed: '' @ templateStr err)"

function waitLoop :: "'w task_api \<Rightarrow> nat \<Rightarrow> nat \<Rightarrow> 'w \<Rightarrow> (js_error + jsval) \<times> 'w" where
  "waitLoop get maxAttempts attempts w =
     (if attempts < maxAttempts then
        (case get w of
           (Inl e, w') \<Rightarrow> (Inl e, w')
         | (Inr task, w') \<Rightarrow>
             if task = JNull then (Inl TypeError, w')
             else if getProp task ''status'' = Some (JStr ''completed'')
                  then (Inr (getProp task ''result''), w')
             else if getProp task ''status'' = Some (JStr ''failed'')
                  then (Inl (taskFailedError (getProp task ''error'')), w')
             else waitLoop get maxAttempts (Suc attempts) w')
      else (Inl timeoutError, w))"
  by pat_completeness auto
termination
  by (relation "measure (\<lambda>(get, maxAttempts, attempts, w). maxAttempts - attempts)") auto

declare waitLoop.simps [simp del]

definition waitForTaskCompletion :: "'w task_api \<Rightarrow> 'w \<Rightarrow> (js_error + jsval) \<times> 'w" where
  "waitForTaskCompletion get w = waitLoop get 60 0 w"

text \<open>A world that answers the polls from a fixed sequence: its state is the number of
  polls made so far.\<close>

definition scripted :: "(nat \<Rightarrow> js_error + json) \<Rightarrow> nat task_api" where
  "scripted answers n = (answers n, Suc n)"

definition taskWithStatus :: "string \<Rightarrow> json" where
  "taskWithStatus s = JObj [(''status'', JStr s)]"

definition completedTask :: "json \<Rightarrow> json" where
  "completedTask r = JObj [(''status'', JStr ''completed''), (''result'', r)]"

text \<open>
  What one answer means to the loop: the poll went through and the status is neither
  \<open>completed\<close> nor \<open>failed\<close> (\<open>pending\<close>, \<open>running\<close>, or anything else), so the
  loop goes on; or the poll went through and the status is \<open>completed\<close>; and the
  \<open>task.result\<close> of an answer.
\<close>

definition stillRunning :: "js_error + json \<Rightarrow> bool" where
  "stillRunning answer =
     (case answer of
        Inl e \<Rightarrow> False
      | Inr task \<Rightarrow> task \<noteq> JNull
          \<and> getProp task ''status'' \<noteq> Some (JStr ''completed'')
          \<and> getProp task ''status'' \<noteq> Some (JStr ''failed''))"

definition isCompleted :: "js_error + json \<Rightarrow> bool" where
  "isCompleted answer =
     (case answer of
        Inl e \<Rightarrow> False
      | Inr task \<Rightarrow> task \<noteq> JNull \<and> getProp task ''status'' = Some (JStr ''completed''))"

definition resultOf :: "js_error + json \<Rightarrow> jsval" where
  "resultOf answer = (case answer of Inl e \<Rightarrow> None | Inr task \<Rightarrow> getProp task ''result'')"

text \<open>The status sequences \<open>pending, pending, completed\<close> (with the result \<open>r\<close>, and
  \<open>completed\<close> ever after) and \<open>pending\<close> for ever.\<close>

definition pendingPendingCompleted :: "json \<Rightarrow> nat \<Rightarrow> js_error + json" where
  "pendingPendingCompleted r n =
     (if n < 2 then Inr (taskWithStatus ''pending'') else Inr (completedTask r))"

definition alwaysPending :: "nat \<Rightarrow> js_error + json" where
  "alwaysPending n = Inr (taskWithStatus ''pending'')"

section \<open>CreditsTaskClient: validating the result (trigger-manus-agent.js)\<close>

text \<open>\<open>item.k = v\<close> on an object: an existing property keeps its place, a new one goes
  last. (It is reached for objects only.)\<close>

fun setProp :: "json \<Rightarrow> string \<Rightarrow> json \<Rightarrow> json" where
  "setProp (JObj props) k v = JObj (AList.update k v props)"
| "setProp item k v = item"

text \<open>The callback of \<open>item.credits.filter\<close>; reading \<open>credit.role\<close> throws when the
  line is \<open>null\<close>.\<close>

definition creditFilter :: "json \<Rightarrow> js_error + bool" where
  "creditFilter credit =
     (if credit = JNull then Inl TypeError
      else Inr (truthy (getProp credit ''role'') \<and> truthy (getProp credit ''people'')
                \<and> isString (getProp credit ''role'') \<and> isString (getProp credit ''people'')))"

fun filterCredits :: "json list \<Rightarrow> js_error + json list" where
  "filterCredits [] = Inr []"
| "filterCredits (credit # rest) =
     (case creditFilter credit of
        Inl e \<Rightarrow> Inl e
      | Inr keep \<Rightarrow>
          (case filterCredits rest of
             Inl e \<Rightarrow> Inl e
           | Inr kept \<Rightarrow> Inr (if keep then credit # kept else kept)))"

text \<open>\<open>item.credits\<close> as a list of lines: the array itself, or \<open>[]\<close> where the source
  replaces what is not an array.\<close>

fun creditLines :: "json \<Rightarrow> json list" where
  "creditLines item =
     (case getProp item ''credits'' of
        Some (JArr lines) \<Rightarrow> lines
      | _ \<Rightarrow> [])"

text \<open>The callback of \<open>creditsData.map\<close>: \<open>JNull\<close> for an item without rank, artist or
  title, the item with its credits cleaned otherwise; reading \<open>item.rank\<close> throws when
  the item is \<open>null\<close>.\<close>

definition cleanItem :: "json \<Rightarrow> js_error + json" where
  "cleanItem item =
     (if item = JNull then Inl TypeError
      else if \<not> truthy (getProp item ''rank'') \<or> \<not> truthy (getProp item ''artist'')
              \<or> \<not> truthy (getProp item ''title'')
      then Inr JNull
      else (case filterCredits (creditLines item) of
              Inl e \<Rightarrow> Inl e
            | Inr kept \<Rightarrow> Inr (setProp item ''credits'' (JArr kept))))"

fun mapItems :: "json list \<Rightarrow> js_error + json list" where
  "mapItems [] = Inr []"
| "mapItems (item # rest) =
     (case cleanItem item of
        Inl e \<Rightarrow> Inl e
      | Inr cleaned \<Rightarrow>
          (case mapItems rest of
             Inl e \<Rightarrow> Inl e
           | Inr mapped \<Rightarrow> Inr (cleaned # mapped)))"

definition validateAndCleanCredits :: "jsval \<Rightarrow> js_error + json list" where
  "validateAndCleanCredits creditsData =
     (case creditsData of
        Some (JArr items) \<Rightarrow>
          (case mapItems items of
             Inl e \<Rightarrow> Inl e
           | Inr mapped \<Rightarrow> Inr (filter (\<lambda>item. item \<noteq> JNull) mapped))
      | _ \<Rightarrow> Inl (Error ''Credits data must be an array''))"

text \<open>An entry has its three required fields; an entry without its credits.\<close>

definition hasRequired :: "json \<Rightarrow> bool" where
  "hasRequired item =
     (truthy (getProp item ''rank'') \<and> truthy (getProp item ''artist'')
      \<and> truthy (getProp item ''title''))"

fun withoutCredits :: "json \<Rightarrow> json" where
  "withoutCredits (JObj props) = JObj (AList.delete ''credits'' props)"
| "withoutCredits item = item"

section \<open>SnapshotStore: the dated file and the latest alias\<close>

text \<open>
  A file written as \<open>JSON.stringify(doc)\<close> and read back by \<open>JSON.parse\<close> is the
  document \<open>doc\<close>; any other file is text that does not parse. \<open>fs.writeFile\<close> replaces
  the whole content of the file at a path, or is rejected when the path cannot be
  written, and then changes nothing.
\<close>

datatype file_content = JsonFile json | TextFile string

record filesystem =
  files :: "string \<Rightarrow> file_content option"
  writable :: "string \<Rightarrow> bool"

definition writeFile :: "filesystem \<Rightarrow> string \<Rightarrow> file_content \<Rightarrow> (js_error + unit) \<times> filesystem" where
  "writeFile fs filepath content =
     (if writable fs filepath
      then (Inr (), fs\<lparr>files := (files fs)(filepath \<mapsto> content)\<rparr>)
      else (Inl (SystemError ''EACCES''), fs))"

text \<open>\<open>path.join(DATA_DIR, filename)\<close> for a plain file name, and
  \<open>iso.split('T')[0]\<close>, the date of an ISO timestamp.\<close>

definition path_join :: "string \<Rightarrow> string \<Rightarrow> string" where
  "path_join dir filename = dir @ ''/'' @ filename"

definition isoDate :: "string \<Rightarrow> string" where
  "isoDate isoString = takeWhile (\<lambda>c. c \<noteq> CHR ''T'') isoString"

text \<open>
  \<open>saveCreditsData\<close> and \<open>saveYouTubeData\<close> are the same function up to the kind in
  the file names and the source tag. The clock is read twice: \<open>now1\<close> gives the date in
  the file name, \<open>now2\<close> the timestamp in the document. The data is an array.
\<close>

definition saveSnapshot ::
  "string \<Rightarrow> string \<Rightarrow> string \<Rightarrow> string \<Rightarrow> string \<Rightarrow> json list \<Rightarrow> filesystem
     \<Rightarrow> (js_error + string) \<times> filesystem" where
  "saveSnapshot kind source dataDir now1 now2 payload fs =
     (let timestamp = isoDate now1;
          filename = kind @ ''-'' @ timestamp @ ''.json'';
          filepath = path_join dataDir filename;
          dataToSave = JObj [(''timestamp'', JStr now2), (''source'', JStr source),
                             (''data'', JArr payload)]
      in case writeFile fs filepath (JsonFile dataToSave) of
           (Inl e, fs1) \<Rightarrow> (Inl e, fs1)
         | (Inr u, fs1) \<Rightarrow>
             (let latestPath = path_join dataDir (''latest-'' @ kind @ ''.json'')
              in case writeFile fs1 latestPath (JsonFile dataToSave) of
                   (Inl e, fs2) \<Rightarrow> (Inl e, fs2)
                 | (Inr u, fs2) \<Rightarrow> (Inr filepath, fs2)))"

definition saveCreditsData ::
  "string \<Rightarrow> string \<Rightarrow> string \<Rightarrow> json list \<Rightarrow> filesystem \<Rightarrow> (js_error + string) \<times> filesystem" where
  "saveCreditsData = saveSnapshot ''credits'' ''manus-agent-tidal''"

definition saveYouTubeData ::
  "string \<Rightarrow> string \<Rightarrow> string \<Rightarrow> json list \<Rightarrow> filesystem \<Rightarrow> (js_error + string) \<times> filesystem" where
  "saveYouTubeData = saveSnapshot ''youtube'' ''youtube-api-v3''"

text \<open>
  The loaders of the next stage (\<open>loadLatestCreditsData\<close> in get-youtube-links.js,
  \<open>loadLatestYouTubeData\<close> in generate-html.js): a missing file, a file that does not
  parse and a document without a \<open>data\<close> to take the length of all end in the same
  error.
\<close>

definition loadLatest :: "string \<Rightarrow> string \<Rightarrow> string \<Rightarrow> filesystem \<Rightarrow> js_error + json" where
  "loadLatest kind message dataDir fs =
     (case files fs (path_join dataDir (''latest-'' @ kind @ ''.json'')) of
        None \<Rightarrow> Inl (Error message)
      | Some (TextFile t) \<Rightarrow> Inl (Error message)
      | Some (JsonFile doc) \<Rightarrow>
          (if doc = JNull then Inl (Error message)
           else (case getProp doc ''data'' of
                   None \<Rightarrow> Inl (Error message)
                 | Some d \<Rightarrow> if d = JNull then Inl (Error message) else Inr d)))"

definition loadLatestCreditsData :: "string \<Rightarrow> filesystem \<Rightarrow> js_error + json" where
  "loadLatestCreditsData =
     loadLatest ''credits'' ''Credits data not found. Run trigger-manus-agent.js first.''"

definition loadLatestYouTubeData :: "string \<Rightarrow> filesystem \<Rightarrow> js_error + json" where
  "loadLatestYouTubeData =
     loadLatest ''youtube'' ''YouTube data not found. Run get-youtube-links.js first.''"

text \<open>For the statements about snapshots: the document a stage writes, the path of
  its dated file and the path of its latest alias; and a disk with no file on it, where
  every path can be written.\<close>

definition snapshotDoc :: "string \<Rightarrow> string \<Rightarrow> json list \<Rightarrow> json" where
  "snapshotDoc now2 source payload =
     JObj [(''timestamp'', JStr now2), (''source'', JStr source), (''data'', JArr payload)]"

definition datedPath :: "string \<Rightarrow> string \<Rightarrow> string \<Rightarrow> string" where
  "datedPath kind dataDir now1 = path_join dataDir (kind @ ''-'' @ isoDate now1 @ ''.json'')"

definition latestPath :: "string \<Rightarrow> string \<Rightarrow> string" where
  "latestPath kind dataDir = path_join dataDir (''latest-'' @ kind @ ''.json'')"

definition emptyDisk :: filesystem where
  "emptyDisk = \<lparr>files = (\<lambda>p. None), writable = (\<lambda>p. True)\<rparr>"

section \<open>Example data for the concrete runs\<close>

text \<open>Search results for the artist \<open>Artist\<close> and the track \<open>Song\<close>.\<close>

definition mkVideo :: "string \<Rightarrow> string \<Rightarrow> string \<Rightarrow> video" where
  "mkVideo vid videoTitle channel =
     \<lparr>id_videoId = vid, snippet_title = videoTitle, snippet_channelTitle = channel,
      snippet_publishedAt = ''2024-01-01T00:00:00Z'', snippet_thumbnails = JObj []\<rparr>"

definition videoOfficial :: video where
  "videoOfficial = mkVideo ''v1'' ''Artist - Song (Official Music Video)'' ''ArtistVEVO''"

definition videoCover :: video where
  "videoCover = mkVideo ''v2'' ''Song (Cover)'' ''Someone''"

definition videoOfficialLive :: video where
  "videoOfficialLive = mkVideo ''v3'' ''Official Live'' ''Someone''"

definition videoPlain :: video where
  "videoPlain = mkVideo ''v4'' ''Something else'' ''Someone''"

definition videoLyric :: video where
  "videoLyric = mkVideo ''v5'' ''Lyrics'' ''Some Music''"

definition videoRecords :: video where
  "videoRecords = mkVideo ''v6'' ''Audio'' ''Big Records''"

definition videoSong :: video where
  "videoSong = mkVideo ''v7'' ''Song'' ''Someone''"

definition videoSongLive :: video where
  "videoSongLive = mkVideo ''v8'' ''Song Live'' ''Someone''"

definition videoSongLiveCover :: video where
  "videoSongLiveCover = mkVideo ''v9'' ''Song Live Cover'' ''Someone''"

text \<open>A credits payload: a full entry with a good and a bad credit line, an entry
  without title, an entry without credits.\<close>

definition entryA :: json where
  "entryA = JObj [(''rank'', JNum 1), (''artist'', JStr ''A''), (''title'', JStr ''B''),
                  (''album'', JStr ''C''),
                  (''credits'', JArr [JObj [(''role'', JStr ''PRODUCER''), (''people'', JStr ''X'')],
                                      JObj [(''role'', JStr []), (''people'', JStr ''Y'')]])]"

definition entryNoTitle :: json where
  "entryNoTitle = JObj [(''rank'', JNum 2), (''artist'', JStr ''D''), (''credits'', JArr [])]"

definition entryNoCredits :: json where
  "entryNoCredits = JObj [(''rank'', JNum 3), (''artist'', JStr ''E''), (''title'', JStr ''F'')]"

definition exampleCredits :: "json list" where
  "exampleCredits = [entryA, entryNoTitle, entryNoCredits]"

text \<open>Credited entries, and a search provider that rejects the first request, finds
  nothing for the second, finds only a cover for the third, and answers every later one
  with the cover and the official video.\<close>

definition exampleEntry :: "int \<Rightarrow> entry" where
  "exampleEntry r = [(''rank'', JNum r), (''artist'', JStr ''Artist''), (''title'', JStr ''Song''),
                     (''album'', JStr ''Album''), (''credits'', JArr [])]"

definition flakySearch :: "nat search_api" where
  "flakySearch n query =
     (if n = 0 then (Inl (RequestError ''quotaExceeded''), Suc n)
      else if n = 1 then (Inr [], Suc n)
      else if n = 2 then (Inr [videoCover], Suc n)
      else (Inr [videoCover, videoOfficial], Suc n))"

section \<open>Substrings\<close>

text \<open>\<open>str_includes\<close> is the substring test: \<open>k\<close> occurs in \<open>s\<close> exactly when \<open>s\<close>
  is some text, then \<open>k\<close>, then some text.\<close>

lemma startsWith_iff: "startsWith s k \<longleftrightarrow> (\<exists>b. s = k @ b)"
  by (induction s k rule: startsWith.induct) auto

lemma str_includes_iff: "str_includes s k \<longleftrightarrow> (\<exists>a b. s = a @ k @ b)"
proof (induction s)
  case Nil
  then show ?case by auto
next
  case (Cons c s)
  show ?case
  proof
    assume "str_includes (c # s) k"
    then consider "startsWith (c # s) k" | "str_includes s k" by auto
    then show "\<exists>a b. c # s = a @ k @ b"
    proof cases
      case 1
      then obtain b where "c # s = k @ b" using startsWith_iff by blast
      then have "c # s = [] @ k @ b" by simp
      then show ?thesis by blast
    next
      case 2
      then obtain a b where "s = a @ k @ b" using Cons.IH by blast
      then have "c # s = (c # a) @ k @ b" by simp
      then show ?thesis by blast
    qed
  next
    assume "\<exists>a b. c # s = a @ k @ b"
    then obtain a b where ab: "c # s = a @ k @ b" by blast
    show "str_includes (c # s) k"
    proof (cases a)
      case Nil
      then have "startsWith (c # s) k" using ab startsWith_iff by auto
      then show ?thesis by simp
    next
      case (Cons x a')
      then have "s = a' @ k @ b" using ab by simp
      then have "str_includes s k" using Cons.IH by blast
      then show ?thesis by simp
    qed
  qed
qed

section \<open>The score of a candidate\<close>

text \<open>With a string for the track title the score is always computed: it is
  \<open>computedScore\<close>.\<close>

lemma scoreVideo_string:
  "scoreVideo lower (lower artist) (Some (JStr title)) idx v = Inr (computedScore lower artist title idx v)"
  by (simp add: computedScore_def scoreVideo_def Let_def)

text \<open>Each inner loop adds its amount once when some keyword of its list occurs, and
  nothing otherwise.\<close>

lemma officialLoop_eq:
  "officialLoop channelTitle kws score =
     score + (if list_ex (str_includes channelTitle) kws then 10 else 0)"
  by (induction kws) simp_all

lemma excludeLoop_eq:
  "excludeLoop videoTitle kws score =
     score - (if list_ex (str_includes videoTitle) kws then 5 else 0)"
  by (induction kws) simp_all

lemma computedScore_eq:
  "computedScore lower artist title idx v =
     (if list_ex (str_includes (lower (snippet_channelTitle v))) (officialKeywords (lower artist))
      then 10 else 0)
   + (if str_includes (lower (snippet_title v)) (lower artist)
         \<and> str_includes (lower (snippet_title v)) (lower title) then 5 else 0)
   + (if str_includes (lower (snippet_title v)) ''official''
         \<or> str_includes (lower (snippet_title v)) ''music video'' then 3 else 0)
   - (if list_ex (str_includes (lower (snippet_title v))) excludeKeywords then 5 else 0)
   + (if idx = 0 then 2 else 0)"
  by (simp add: computedScore_def scoreVideo_def Let_def officialLoop_eq excludeLoop_eq)

text \<open>The scores of the example videos.\<close>

lemma example_scores:
  "computedScore asciiLower ''Artist'' ''Song'' 0 videoOfficial = 20"
  "computedScore asciiLower ''Artist'' ''Song'' (Suc 0) videoOfficial = 18"
  "computedScore asciiLower ''Artist'' ''Song'' 0 videoCover = - 3"
  "computedScore asciiLower ''Artist'' ''Song'' 0 videoOfficialLive = 0"
  "computedScore asciiLower ''Artist'' ''Song'' (Suc 0) videoPlain = 0"
  "computedScore asciiLower ''Artist'' ''Song'' 0 videoPlain = 2"
  "computedScore asciiLower ''Artist'' ''Song'' (Suc 0) videoLyric = 10"
  "computedScore asciiLower ''Artist'' ''Song'' (Suc (Suc 0)) videoRecords = 10"
  "computedScore asciiLower ''Artist'' ''Song'' 0 videoSong = 2"
  "computedScore asciiLower ''Artist'' ''Song'' 0 videoSongLive = - 3"
  "computedScore asciiLower ''Artist'' ''Song'' 0 videoSongLiveCover = - 3"
  by (simp_all add: computedScore_eq officialKeywords_def excludeKeywords_def mkVideo_def
        videoOfficial_def videoCover_def videoOfficialLive_def videoPlain_def videoLyric_def
        videoRecords_def videoSong_def videoSongLive_def videoSongLiveCover_def
        asciiLower_def lowerChar_def)

text \<open>
  Claim C2. For every candidate, when artist and track title are strings, the score the
  loop computes is the sum of five components: 10 if the lowercased channel name
  contains \<open>vevo\<close>, \<open>records\<close>, \<open>music\<close>, \<open>official\<close> or the lowercased artist
  (once); 5 if the lowercased title contains both the lowercased artist and the
  lowercased track title; 3 if the lowercased title contains \<open>official\<close> or
  \<open>music video\<close> (once); minus 5 if the lowercased title contains \<open>cover\<close>,
  \<open>remix\<close>, \<open>live\<close>, \<open>acoustic\<close>, \<open>karaoke\<close> or \<open>instrumental\<close> (once); and 2
  if the candidate is the first of the list.
\<close>

theorem scoreVideo_sum_of_components:
  "scoreVideo lower (lower artist) (Some (JStr title)) idx v =
     Inr ((if str_includes (lower (snippet_channelTitle v)) ''vevo''
              \<or> str_includes (lower (snippet_channelTitle v)) ''records''
              \<or> str_includes (lower (snippet_channelTitle v)) ''music''
              \<or> str_includes (lower (snippet_channelTitle v)) ''official''
              \<or> str_includes (lower (snippet_channelTitle v)) (lower artist)
           then 10 else 0)
        + (if str_includes (lower (snippet_title v)) (lower artist)
              \<and> str_includes (lower (snippet_title v)) (lower title)
           then 5 else 0)
        + (if str_includes (lower (snippet_title v)) ''official''
              \<or> str_includes (lower (snippet_title v)) ''music video''
           then 3 else 0)
        - (if str_includes (lower (snippet_title v)) ''cover''
              \<or> str_includes (lower (snippet_title v)) ''remix''
              \<or> str_includes (lower (snippet_title v)) ''live''
              \<or> str_includes (lower (snippet_title v)) ''acoustic''
              \<or> str_includes (lower (snippet_title v)) ''karaoke''
              \<or> str_includes (lower (snippet_title v)) ''instrumental''
           then 5 else 0)
        + (if idx = 0 then 2 else 0))"
  unfolding scoreVideo_string computedScore_eq officialKeywords_def excludeKeywords_def
  by simp

theorem scoreVideo_sum_of_components_witness:
  "scoreVideo asciiLower (asciiLower ''Artist'') (Some (JStr ''Song'')) 0 videoOfficial = Inr 20"
  using scoreVideo_sum_of_components [of asciiLower "''Artist''" "''Song''" 0 videoOfficial]
  by (simp add: videoOfficial_def mkVideo_def asciiLower_def lowerChar_def)

section \<open>The choice among the candidates\<close>

text \<open>
  What the outer loop returns from any point on, with \<open>bv\<close> the running best and
  \<open>bs\<close> its score: the running best when no later score exceeds \<open>bs\<close>, and otherwise
  the first video whose score is the greatest of the later ones.
\<close>

lemma findBestLoop_char:
  "\<exists>r. findBestLoop lower (lower artist) (Some (JStr title)) idx vs bv bs = Inr r \<and>
     ((r = bv \<and> (\<forall>j<length vs. computedScore lower artist title (idx + j) (vs ! j) \<le> bs)) \<or>
      (\<exists>k<length vs. r = Some (vs ! k)
          \<and> bs < computedScore lower artist title (idx + k) (vs ! k)
          \<and> (\<forall>j<length vs. computedScore lower artist title (idx + j) (vs ! j)
                 \<le> computedScore lower artist title (idx + k) (vs ! k))
          \<and> (\<forall>j<k. computedScore lower artist title (idx + j) (vs ! j)
                 < computedScore lower artist title (idx + k) (vs ! k))))"
proof (induction vs arbitrary: idx bv bs)
  case Nil
  show ?case by simp
next
  case (Cons v rest)
  let ?sc = "computedScore lower artist title"
  let ?loop = "findBestLoop lower (lower artist) (Some (JStr title))"
  show ?case
  proof (cases "bs < ?sc idx v")
    case True
    obtain r where r: "?loop (Suc idx) rest (Some v) (?sc idx v) = Inr r"
      and alt: "(r = Some v \<and> (\<forall>j<length rest. ?sc (Suc idx + j) (rest ! j) \<le> ?sc idx v)) \<or>
        (\<exists>k<length rest. r = Some (rest ! k)
          \<and> ?sc idx v < ?sc (Suc idx + k) (rest ! k)
          \<and> (\<forall>j<length rest. ?sc (Suc idx + j) (rest ! j) \<le> ?sc (Suc idx + k) (rest ! k))
          \<and> (\<forall>j<k. ?sc (Suc idx + j) (rest ! j) < ?sc (Suc idx + k) (rest ! k)))"
      using Cons.IH[of "Suc idx" "Some v" "?sc idx v"] by blast
    have res: "?loop idx (v # rest) bv bs = Inr r"
      using True r by (simp add: scoreVideo_string)
    from alt show ?thesis
    proof
      assume a: "r = Some v \<and> (\<forall>j<length rest. ?sc (Suc idx + j) (rest ! j) \<le> ?sc idx v)"
      have "0 < length (v # rest) \<and> r = Some ((v # rest) ! 0)
          \<and> bs < ?sc (idx + 0) ((v # rest) ! 0)
          \<and> (\<forall>j<length (v # rest). ?sc (idx + j) ((v # rest) ! j) \<le> ?sc (idx + 0) ((v # rest) ! 0))
          \<and> (\<forall>j<0. ?sc (idx + j) ((v # rest) ! j) < ?sc (idx + 0) ((v # rest) ! 0))"
        using a True by (simp add: All_less_Suc2)
      then show ?thesis using res by blast
    next
      assume "\<exists>k<length rest. r = Some (rest ! k)
          \<and> ?sc idx v < ?sc (Suc idx + k) (rest ! k)
          \<and> (\<forall>j<length rest. ?sc (Suc idx + j) (rest ! j) \<le> ?sc (Suc idx + k) (rest ! k))
          \<and> (\<forall>j<k. ?sc (Suc idx + j) (rest ! j) < ?sc (Suc idx + k) (rest ! k))"
      then obtain k where k: "k < length rest" "r = Some (rest ! k)"
          "?sc idx v < ?sc (Suc idx + k) (rest ! k)"
          "\<forall>j<length rest. ?sc (Suc idx + j) (rest ! j) \<le> ?sc (Suc idx + k) (rest ! k)"
          "\<forall>j<k. ?sc (Suc idx + j) (rest ! j) < ?sc (Suc idx + k) (rest ! k)"
        by blast
      have "Suc k < length (v # rest) \<and> r = Some ((v # rest) ! Suc k)
          \<and> bs < ?sc (idx + Suc k) ((v # rest) ! Suc k)
          \<and> (\<forall>j<length (v # rest). ?sc (idx + j) ((v # rest) ! j) \<le> ?sc (idx + Suc k) ((v # rest) ! Suc k))
          \<and> (\<forall>j<Suc k. ?sc (idx + j) ((v # rest) ! j) < ?sc (idx + Suc k) ((v # rest) ! Suc k))"
        using k True by (simp add: All_less_Suc2 less_imp_le order_less_le_trans)
      then show ?thesis using res by blast
    qed
  next
    case False
    obtain r where r: "?loop (Suc idx) rest bv bs = Inr r"
      and alt: "(r = bv \<and> (\<forall>j<length rest. ?sc (Suc idx + j) (rest ! j) \<le> bs)) \<or>
        (\<exists>k<length rest. r = Some (rest ! k)
          \<and> bs < ?sc (Suc idx + k) (rest ! k)
          \<and> (\<forall>j<length rest. ?sc (Suc idx + j) (rest ! j) \<le> ?sc (Suc idx + k) (rest ! k))
          \<and> (\<forall>j<k. ?sc (Suc idx + j) (rest ! j) < ?sc (Suc idx + k) (rest ! k)))"
      using Cons.IH[of "Suc idx" bv bs] by blast
    have res: "?loop idx (v # rest) bv bs = Inr r"
      using False r by (simp add: scoreVideo_string)
    from alt show ?thesis
    proof
      assume a: "r = bv \<and> (\<forall>j<length rest. ?sc (Suc idx + j) (rest ! j) \<le> bs)"
      have "r = bv \<and> (\<forall>j<length (v # rest). ?sc (idx + j) ((v # rest) ! j) \<le> bs)"
        using a False by (simp add: All_less_Suc2 less_imp_le order_less_le_trans)
      then show ?thesis using res by blast
    next
      assume "\<exists>k<length rest. r = Some (rest ! k)
          \<and> bs < ?sc (Suc idx + k) (rest ! k)
          \<and> (\<forall>j<length rest. ?sc (Suc idx + j) (rest ! j) \<le> ?sc (Suc idx + k) (rest ! k))
          \<and> (\<forall>j<k. ?sc (Suc idx + j) (rest ! j) < ?sc (Suc idx + k) (rest ! k))"
      then obtain k where k: "k < length rest" "r = Some (rest ! k)"
          "bs < ?sc (Suc idx + k) (rest ! k)"
          "\<forall>j<length rest. ?sc (Suc idx + j) (rest ! j) \<le> ?sc (Suc idx + k) (rest ! k)"
          "\<forall>j<k. ?sc (Suc idx + j) (rest ! j) < ?sc (Suc idx + k) (rest ! k)"
        by blast
      have "Suc k < length (v # rest) \<and> r = Some ((v # rest) ! Suc k)
          \<and> bs < ?sc (idx + Suc k) ((v # rest) ! Suc k)
          \<and> (\<forall>j<length (v # rest). ?sc (idx + j) ((v # rest) ! j) \<le> ?sc (idx + Suc k) ((v # rest) ! Suc k))
          \<and> (\<forall>j<Suc k. ?sc (idx + j) ((v # rest) ! j) < ?sc (idx + Suc k) ((v # rest) ! Suc k))"
        using k False by (simp add: All_less_Suc2 less_imp_le order_less_le_trans)
      then show ?thesis using res by blast
    qed
  qed
qed

lemma findBestVideo_char:
  "\<exists>r. findBestVideo lower videos (Some (JStr artist)) (Some (JStr title)) = Inr r \<and>
     ((r = None \<and> (\<forall>j<length videos. computedScore lower artist title j (videos ! j) \<le> 0)) \<or>
      (\<exists>k<length videos. r = Some (videos ! k)
          \<and> 0 < computedScore lower artist title k (videos ! k)
          \<and> (\<forall>j<length videos. computedScore lower artist title j (videos ! j)
                 \<le> computedScore lower artist title k (videos ! k))
          \<and> (\<forall>j<k. computedScore lower artist title j (videos ! j)
                 < computedScore lower artist title k (videos ! k))))"
  using findBestLoop_char[of lower artist title 0 videos None 0]
  by (simp add: findBestVideo_def)

lemma example_findBest:
  "findBestVideo asciiLower [videoCover] (Some (JStr ''Artist'')) (Some (JStr ''Song'')) = Inr None"
  "findBestVideo asciiLower [videoCover, videoOfficial] (Some (JStr ''Artist'')) (Some (JStr ''Song''))
     = Inr (Some videoOfficial)"
  "findBestVideo asciiLower [videoOfficialLive, videoPlain] (Some (JStr ''Artist'')) (Some (JStr ''Song''))
     = Inr None"
  "findBestVideo asciiLower [videoPlain, videoLyric, videoRecords] (Some (JStr ''Artist'')) (Some (JStr ''Song''))
     = Inr (Some videoLyric)"
  by (simp_all add: findBestVideo_def scoreVideo_string example_scores)

text \<open>
  Claim C1 says that the choice is absent only for the empty list. The list of the one
  candidate \<open>videoCover\<close> is not empty; that candidate scores \<open>-3\<close> (the penalty of 5
  and the bonus of 2 of the first place), which does not exceed the initial best score 0,
  and the choice is absent.
\<close>

theorem findBestVideo_single_candidate_absent:
  "length [videoCover] = 1
   \<and> scoreVideo asciiLower (asciiLower ''Artist'') (Some (JStr ''Song'')) 0 videoCover = Inr (- 3)
   \<and> findBestVideo asciiLower [videoCover] (Some (JStr ''Artist'')) (Some (JStr ''Song'')) = Inr None"
  by (simp add: example_findBest scoreVideo_string example_scores)

text \<open>
  Claim C1, as amended. For artist and track title strings \<open>findBestVideo\<close> always
  returns; it returns absent exactly when no candidate scores above 0 (so for the empty
  list, and for a single candidate exactly when its score is at most 0), and otherwise
  it returns a candidate of the greatest score, which is above 0.
\<close>

theorem findBestVideo_threshold:
  "\<exists>r. findBestVideo lower videos (Some (JStr artist)) (Some (JStr title)) = Inr r \<and>
     (if \<forall>i<length videos. computedScore lower artist title i (videos ! i) \<le> 0
      then r = None
      else \<exists>k<length videos. r = Some (videos ! k)
             \<and> 0 < computedScore lower artist title k (videos ! k)
             \<and> (\<forall>j<length videos. computedScore lower artist title j (videos ! j)
                    \<le> computedScore lower artist title k (videos ! k)))"
proof -
  obtain r where r: "findBestVideo lower videos (Some (JStr artist)) (Some (JStr title)) = Inr r"
    and alt: "(r = None \<and> (\<forall>j<length videos. computedScore lower artist title j (videos ! j) \<le> 0)) \<or>
      (\<exists>k<length videos. r = Some (videos ! k)
          \<and> 0 < computedScore lower artist title k (videos ! k)
          \<and> (\<forall>j<length videos. computedScore lower artist title j (videos ! j)
                 \<le> computedScore lower artist title k (videos ! k))
          \<and> (\<forall>j<k. computedScore lower artist title j (videos ! j)
                 < computedScore lower artist title k (videos ! k)))"
    using findBestVideo_char[of lower videos artist title] by blast
  from alt show ?thesis
  proof
    assume "r = None \<and> (\<forall>j<length videos. computedScore lower artist title j (videos ! j) \<le> 0)"
    then show ?thesis using r by simp
  next
    assume "\<exists>k<length videos. r = Some (videos ! k)
          \<and> 0 < computedScore lower artist title k (videos ! k)
          \<and> (\<forall>j<length videos. computedScore lower artist title j (videos ! j)
                 \<le> computedScore lower artist title k (videos ! k))
          \<and> (\<forall>j<k. computedScore lower artist title j (videos ! j)
                 < computedScore lower artist title k (videos ! k))"
    then obtain k where k: "k < length videos" "r = Some (videos ! k)"
        "0 < computedScore lower artist title k (videos ! k)"
        "\<forall>j<length videos. computedScore lower artist title j (videos ! j)
                 \<le> computedScore lower artist title k (videos ! k)"
      by blast
    then have "\<not> (\<forall>i<length videos. computedScore lower artist title i (videos ! i) \<le> 0)"
      by (meson not_le)
    then show ?thesis using r k by auto
  qed
qed

theorem findBestVideo_threshold_witness:
  "findBestVideo asciiLower [videoCover, videoOfficial] (Some (JStr ''Artist'')) (Some (JStr ''Song''))
     = Inr (Some videoOfficial)
   \<and> 0 < computedScore asciiLower ''Artist'' ''Song'' 1 ([videoCover, videoOfficial] ! 1)"
  using findBestVideo_threshold [where lower = asciiLower and videos = "[videoCover, videoOfficial]"
      and artist = "''Artist''" and title = "''Song''"]
  by (simp add: example_findBest example_scores)

text \<open>
  Claim C5 says that of two candidates with the same score the earlier one is returned.
  In the list \<open>[videoOfficialLive, videoPlain]\<close> both candidates score 0 (the first:
  3, minus 5, plus 2), and neither is returned: the choice is absent.
\<close>

theorem findBestVideo_tie_at_zero_absent:
  "scoreVideo asciiLower (asciiLower ''Artist'') (Some (JStr ''Song'')) 0 videoOfficialLive = Inr 0
   \<and> scoreVideo asciiLower (asciiLower ''Artist'') (Some (JStr ''Song'')) 1 videoPlain = Inr 0
   \<and> findBestVideo asciiLower [videoOfficialLive, videoPlain] (Some (JStr ''Artist'')) (Some (JStr ''Song''))
       = Inr None"
  by (simp add: example_findBest scoreVideo_string example_scores)

text \<open>
  Claim C5, as amended. When two candidates at the positions \<open>i < j\<close> have the same
  score, that score is the greatest of the list and it is above 0, \<open>findBestVideo\<close>
  returns the earliest candidate of that score: its position is at most \<open>i\<close>, and
  every candidate before it scores strictly less.
\<close>

theorem findBestVideo_tie_break:
  assumes "i < j" and "j < length videos"
    and "computedScore lower artist title i (videos ! i) = computedScore lower artist title j (videos ! j)"
    and "\<forall>m<length videos. computedScore lower artist title m (videos ! m)
            \<le> computedScore lower artist title i (videos ! i)"
    and "0 < computedScore lower artist title i (videos ! i)"
  shows "\<exists>k\<le>i. findBestVideo lower videos (Some (JStr artist)) (Some (JStr title)) = Inr (Some (videos ! k))
            \<and> computedScore lower artist title k (videos ! k) = computedScore lower artist title i (videos ! i)
            \<and> (\<forall>m<k. computedScore lower artist title m (videos ! m)
                  < computedScore lower artist title k (videos ! k))"
proof -
  let ?cs = "\<lambda>m. computedScore lower artist title m (videos ! m)"
  have i: "i < length videos" using assms(1,2) by simp
  obtain r where r: "findBestVideo lower videos (Some (JStr artist)) (Some (JStr title)) = Inr r"
    and alt: "(r = None \<and> (\<forall>m<length videos. ?cs m \<le> 0)) \<or>
      (\<exists>k<length videos. r = Some (videos ! k) \<and> 0 < ?cs k
          \<and> (\<forall>m<length videos. ?cs m \<le> ?cs k) \<and> (\<forall>m<k. ?cs m < ?cs k))"
    using findBestVideo_char[of lower videos artist title] by blast
  from alt show ?thesis
  proof
    assume "r = None \<and> (\<forall>m<length videos. ?cs m \<le> 0)"
    then have "?cs i \<le> 0" using i by blast
    then show ?thesis using assms(5) by simp
  next
    assume "\<exists>k<length videos. r = Some (videos ! k) \<and> 0 < ?cs k
          \<and> (\<forall>m<length videos. ?cs m \<le> ?cs k) \<and> (\<forall>m<k. ?cs m < ?cs k)"
    then obtain k where k: "k < length videos" "r = Some (videos ! k)"
        "\<forall>m<length videos. ?cs m \<le> ?cs k" "\<forall>m<k. ?cs m < ?cs k"
      by blast
    have eq: "?cs k = ?cs i" using k(1,3) i assms(4) by (meson order_antisym)
    have "\<not> i < k" using k(4) eq by (metis less_irrefl)
    then have "k \<le> i" by simp
    then show ?thesis using r k eq by blast
  qed
qed

theorem findBestVideo_tie_break_witness:
  "(1::nat) < 2 \<and> 2 < length [videoPlain, videoLyric, videoRecords]
   \<and> computedScore asciiLower ''Artist'' ''Song'' 1 ([videoPlain, videoLyric, videoRecords] ! 1)
       = computedScore asciiLower ''Artist'' ''Song'' 2 ([videoPlain, videoLyric, videoRecords] ! 2)
   \<and> 0 < computedScore asciiLower ''Artist'' ''Song'' 1 ([videoPlain, videoLyric, videoRecords] ! 1)
   \<and> findBestVideo asciiLower [videoPlain, videoLyric, videoRecords]
         (Some (JStr ''Artist'')) (Some (JStr ''Song'')) = Inr (Some videoLyric)"
proof -
  let ?vs = "[videoPlain, videoLyric, videoRecords]"
  let ?cs = "\<lambda>m. computedScore asciiLower ''Artist'' ''Song'' m (?vs ! m)"
  have h1: "(1::nat) < 2" by simp
  have h2: "2 < length ?vs" by simp
  have h3: "?cs 1 = ?cs 2" by (simp add: example_scores numeral_2_eq_2)
  have h4: "\<forall>m<length ?vs. ?cs m \<le> ?cs 1"
    by (simp add: All_less_Suc example_scores numeral_2_eq_2)
  have h5: "0 < ?cs 1" by (simp add: example_scores)
  from findBestVideo_tie_break [OF h1 h2 h3 h4 h5]
  obtain k where "k \<le> 1"
    and "findBestVideo asciiLower ?vs (Some (JStr ''Artist'')) (Some (JStr ''Song'')) = Inr (Some (?vs ! k))"
    and "\<forall>m<k. ?cs m < ?cs k" and "?cs k = ?cs 1"
    by blast
  then show ?thesis using h3 h5 by (simp add: example_findBest)
qed

section \<open>The penalty of the excluded keywords\<close>

text \<open>
  Claim C6 says that adding an excluded keyword to a title lowers the score by 5 against
  the candidate whose title lacks that keyword. The title \<open>Song Live\<close> lacks
  \<open>cover\<close>; with \<open> Cover\<close> added, and nothing else changed, the score is the same
  \<open>-3\<close>: the penalty is taken once, at the first keyword found.
\<close>

theorem exclude_penalty_not_applied_twice:
  "\<not> str_includes (asciiLower (snippet_title videoSongLive)) ''cover''
   \<and> snippet_title videoSongLiveCover = snippet_title videoSongLive @ '' Cover''
   \<and> snippet_channelTitle videoSongLiveCover = snippet_channelTitle videoSongLive
   \<and> scoreVideo asciiLower (asciiLower ''Artist'') (Some (JStr ''Song'')) 0 videoSongLive = Inr (- 3)
   \<and> scoreVideo asciiLower (asciiLower ''Artist'') (Some (JStr ''Song'')) 0 videoSongLiveCover = Inr (- 3)"
  by (simp add: scoreVideo_string example_scores)
     (simp add: videoSongLive_def videoSongLiveCover_def mkVideo_def asciiLower_def lowerChar_def)

text \<open>
  Claim C6, as amended. Take two candidates at the same position with the same channel,
  where the lowercased title of the first contains no excluded keyword, that of the
  second contains one, and the two titles agree on the other two checks (artist and track
  title both contained; \<open>official\<close> or \<open>music video\<close> contained). Then the score of
  the second is that of the first minus 5.
\<close>

theorem exclude_penalty:
  assumes "kw \<in> set excludeKeywords"
    and "str_includes (lower (snippet_title v')) kw"
    and "\<forall>k\<in>set excludeKeywords. \<not> str_includes (lower (snippet_title v)) k"
    and "snippet_channelTitle v' = snippet_channelTitle v"
    and "(str_includes (lower (snippet_title v')) (lower artist)
            \<and> str_includes (lower (snippet_title v')) (lower title))
         = (str_includes (lower (snippet_title v)) (lower artist)
            \<and> str_includes (lower (snippet_title v)) (lower title))"
    and "(str_includes (lower (snippet_title v')) ''official''
            \<or> str_includes (lower (snippet_title v')) ''music video'')
         = (str_includes (lower (snippet_title v)) ''official''
            \<or> str_includes (lower (snippet_title v)) ''music video'')"
  shows "\<exists>s. scoreVideo lower (lower artist) (Some (JStr title)) idx v = Inr s
           \<and> scoreVideo lower (lower artist) (Some (JStr title)) idx v' = Inr (s - 5)"
proof -
  have ex': "list_ex (str_includes (lower (snippet_title v'))) excludeKeywords"
    using assms(1,2) by (auto simp: list_ex_iff)
  have ex: "\<not> list_ex (str_includes (lower (snippet_title v))) excludeKeywords"
    using assms(3) by (auto simp: list_ex_iff)
  have "computedScore lower artist title idx v' = computedScore lower artist title idx v - 5"
    unfolding computedScore_eq using ex ex' assms(4,5,6) by simp
  then show ?thesis by (simp add: scoreVideo_string)
qed

theorem exclude_penalty_witness:
  "scoreVideo asciiLower (asciiLower ''Artist'') (Some (JStr ''Song'')) 0 videoSong = Inr 2
   \<and> scoreVideo asciiLower (asciiLower ''Artist'') (Some (JStr ''Song'')) 0 videoSongLive = Inr (2 - 5)"
proof -
  have h1: "''live'' \<in> set excludeKeywords" by (simp add: excludeKeywords_def)
  have h2: "str_includes (asciiLower (snippet_title videoSongLive)) ''live''"
    by (simp add: videoSongLive_def mkVideo_def asciiLower_def lowerChar_def)
  have h3: "\<forall>k\<in>set excludeKeywords. \<not> str_includes (asciiLower (snippet_title videoSong)) k"
    by (simp add: excludeKeywords_def videoSong_def mkVideo_def asciiLower_def lowerChar_def)
  have h4: "snippet_channelTitle videoSongLive = snippet_channelTitle videoSong"
    by (simp add: videoSongLive_def videoSong_def mkVideo_def)
  have h5: "(str_includes (asciiLower (snippet_title videoSongLive)) (asciiLower ''Artist'')
            \<and> str_includes (asciiLower (snippet_title videoSongLive)) (asciiLower ''Song''))
         = (str_includes (asciiLower (snippet_title videoSong)) (asciiLower ''Artist'')
            \<and> str_includes (asciiLower (snippet_title videoSong)) (asciiLower ''Song''))"
    by (simp add: videoSongLive_def videoSong_def mkVideo_def asciiLower_def lowerChar_def)
  have h6: "(str_includes (asciiLower (snippet_title videoSongLive)) ''official''
            \<or> str_includes (asciiLower (snippet_title videoSongLive)) ''music video'')
         = (str_includes (asciiLower (snippet_title videoSong)) ''official''
            \<or> str_includes (asciiLower (snippet_title videoSong)) ''music video'')"
    by (simp add: videoSongLive_def videoSong_def mkVideo_def asciiLower_def lowerChar_def)
  from exclude_penalty [where lower = asciiLower and artist = "''Artist''" and title = "''Song''"
      and idx = 0, OF h1 h2 h3 h4 h5 h6]
  show ?thesis by (simp add: scoreVideo_string example_scores)
qed

section \<open>Polling the remote task\<close>

text \<open>One turn of the loop on a scripted world, by what the answer is; and the loop
  once the attempts are used up.\<close>

lemma waitLoop_running:
  "attempts < maxAttempts \<Longrightarrow> stillRunning (answers n) \<Longrightarrow>
   waitLoop (scripted answers) maxAttempts attempts n
     = waitLoop (scripted answers) maxAttempts (Suc attempts) (Suc n)"
  by (subst waitLoop.simps) (auto simp: scripted_def stillRunning_def split: sum.splits)

lemma waitLoop_completed:
  "attempts < maxAttempts \<Longrightarrow> isCompleted (answers n) \<Longrightarrow>
   waitLoop (scripted answers) maxAttempts attempts n = (Inr (resultOf (answers n)), Suc n)"
  by (subst waitLoop.simps) (auto simp: scripted_def isCompleted_def resultOf_def split: sum.splits)

lemma waitLoop_exhausted:
  "\<not> attempts < maxAttempts \<Longrightarrow>
   waitLoop get maxAttempts attempts w = (Inl timeoutError, w)"
  by (subst waitLoop.simps) simp

text \<open>From any point on: after \<open>d\<close> answers that keep the loop going, a completed
  answer within the bound ends it, one poll later.\<close>

lemma waitLoop_first_completed:
  "attempts + d < maxAttempts \<Longrightarrow> (\<forall>j<d. stillRunning (answers (n + j))) \<Longrightarrow>
   isCompleted (answers (n + d)) \<Longrightarrow>
   waitLoop (scripted answers) maxAttempts attempts n
     = (Inr (resultOf (answers (n + d))), Suc (n + d))"
proof (induction d arbitrary: attempts n)
  case 0
  then show ?case by (simp add: waitLoop_completed)
next
  case (Suc d)
  have run: "stillRunning (answers n)" using Suc.prems(2) by force
  have "waitLoop (scripted answers) maxAttempts attempts n
          = waitLoop (scripted answers) maxAttempts (Suc attempts) (Suc n)"
    using Suc.prems(1) run by (simp add: waitLoop_running)
  also have "\<dots> = (Inr (resultOf (answers (Suc n + d))), Suc (Suc n + d))"
  proof (rule Suc.IH)
    show "Suc attempts + d < maxAttempts" using Suc.prems(1) by simp
    show "\<forall>j<d. stillRunning (answers (Suc n + j))"
      using Suc.prems(2) by (metis Suc_less_eq add_Suc_right add_Suc)
    show "isCompleted (answers (Suc n + d))" using Suc.prems(3) by simp
  qed
  finally show ?case by simp
qed

text \<open>From any point on: when every answer left within the bound keeps the loop going,
  the loop makes exactly the polls that are left and ends in the timeout.\<close>

lemma waitLoop_all_running:
  "(\<forall>j<maxAttempts - attempts. stillRunning (answers (n + j))) \<Longrightarrow>
   waitLoop (scripted answers) maxAttempts attempts n
     = (Inl timeoutError, n + (maxAttempts - attempts))"
proof (induction "maxAttempts - attempts" arbitrary: attempts n)
  case 0
  then show ?case by (simp add: waitLoop_exhausted)
next
  case (Suc d)
  have lt: "attempts < maxAttempts" using Suc.hyps(2) by simp
  have run: "stillRunning (answers n)" using Suc.prems Suc.hyps(2) by force
  have d: "d = maxAttempts - Suc attempts" using Suc.hyps(2) by simp
  have "waitLoop (scripted answers) maxAttempts attempts n
          = waitLoop (scripted answers) maxAttempts (Suc attempts) (Suc n)"
    using lt run by (simp add: waitLoop_running)
  also have "\<dots> = (Inl timeoutError, Suc n + (maxAttempts - Suc attempts))"
  proof (rule Suc.hyps(1) [OF d])
    show "\<forall>j<maxAttempts - Suc attempts. stillRunning (answers (Suc n + j))"
    proof (intro allI impI)
      fix j assume "j < maxAttempts - Suc attempts"
      then have "Suc j < maxAttempts - attempts" by simp
      then have "stillRunning (answers (n + Suc j))" using Suc.prems by blast
      then show "stillRunning (answers (Suc n + j))" by simp
    qed
  qed
  finally show ?case using lt by simp
qed

lemma timeout_not_failed: "timeoutError \<noteq> taskFailedError err"
  by (simp add: timeoutError_def taskFailedError_def)

text \<open>
  Claim C3. Polling stops at the first poll that observes the status \<open>completed\<close>, and
  returns the result of that task: when the polls \<open>0 .. k-1\<close> go through with a status
  that is neither \<open>completed\<close> nor \<open>failed\<close>, poll \<open>k\<close> observes \<open>completed\<close> and
  \<open>k\<close> is within the bound, the loop returns the result after exactly \<open>k + 1\<close> polls
  (the world is left at \<open>k + 1\<close>: no further poll is made). The same holds of
  \<open>waitForTaskCompletion\<close>, whose bound is 60. For the sequence
  \<open>pending, pending, completed\<close> and the bound 5 these are 3 polls, as the instance
  after the theorem shows.
\<close>

theorem waitLoop_stops_at_first_completed:
  assumes "k < maxAttempts"
    and "\<forall>j<k. stillRunning (answers j)"
    and "isCompleted (answers k)"
  shows "waitLoop (scripted answers) maxAttempts 0 0 = (Inr (resultOf (answers k)), Suc k)
         \<and> (k < 60 \<longrightarrow>
              waitForTaskCompletion (scripted answers) 0 = (Inr (resultOf (answers k)), Suc k))"
  using assms waitLoop_first_completed [of 0 k maxAttempts answers 0]
    waitLoop_first_completed [of 0 k 60 answers 0]
  by (simp add: waitForTaskCompletion_def)

theorem waitLoop_stops_at_first_completed_witness:
  "waitLoop (scripted (pendingPendingCompleted (JArr []))) 5 0 0 = (Inr (Some (JArr [])), 3)
   \<and> waitForTaskCompletion (scripted (pendingPendingCompleted (JArr []))) 0 = (Inr (Some (JArr [])), 3)"
proof -
  have h1: "(2::nat) < 5" by simp
  have h2: "\<forall>j<2. stillRunning (pendingPendingCompleted (JArr []) j)"
    by (simp add: stillRunning_def pendingPendingCompleted_def taskWithStatus_def)
  have h3: "isCompleted (pendingPendingCompleted (JArr []) 2)"
    by (simp add: isCompleted_def pendingPendingCompleted_def completedTask_def)
  have r: "resultOf (pendingPendingCompleted (JArr []) 2) = Some (JArr [])"
    by (simp add: resultOf_def pendingPendingCompleted_def completedTask_def)
  from waitLoop_stops_at_first_completed [OF h1 h2 h3] show ?thesis
    unfolding r by simp
qed

text \<open>
  Claim C4 speaks of a run with \<open>maxAttempts = 3\<close> that ends after exactly 3 polls.
  \<open>waitForTaskCompletion\<close> takes no bound: it fixes \<open>maxAttempts\<close> at 60, and on the
  status sequence that is \<open>pending\<close> for ever it makes 60 polls, not 3, before it fails
  with the timeout.
\<close>

theorem waitForTaskCompletion_polls_sixty_times:
  "fst (waitForTaskCompletion (scripted alwaysPending) 0) = Inl timeoutError
   \<and> snd (waitForTaskCompletion (scripted alwaysPending) 0) = 60
   \<and> snd (waitForTaskCompletion (scripted alwaysPending) 0) \<noteq> 3"
proof -
  have "\<forall>j<60 - 0. stillRunning (alwaysPending (0 + j))"
    by (simp add: stillRunning_def alwaysPending_def taskWithStatus_def)
  then have "waitLoop (scripted alwaysPending) 60 0 0 = (Inl timeoutError, 0 + (60 - 0))"
    by (rule waitLoop_all_running)
  then show ?thesis by (simp add: waitForTaskCompletion_def)
qed

text \<open>
  Claim C4, as amended. The attempt budget of \<open>waitForTaskCompletion\<close> is the fixed
  constant 60. When each of the first 60 polls goes through with a status that is neither
  \<open>completed\<close> nor \<open>failed\<close> (so for the status sequence that is always
  \<open>pending\<close>), \<open>waitForTaskCompletion\<close> makes exactly 60 polls and then fails with
  the timeout error, which differs from the error of a failed task whatever remote error
  message that one carries.
\<close>

theorem waitForTaskCompletion_timeout:
  assumes "\<forall>j<60. stillRunning (answers j)"
  shows "waitForTaskCompletion (scripted answers) 0 = (Inl timeoutError, 60)
         \<and> (\<forall>err. timeoutError \<noteq> taskFailedError err)"
  using assms waitLoop_all_running [of 60 0 answers 0] timeout_not_failed
  by (simp add: waitForTaskCompletion_def)

theorem waitForTaskCompletion_timeout_witness:
  "waitForTaskCompletion (scripted alwaysPending) 0 = (Inl timeoutError, 60)
   \<and> timeoutError \<noteq> taskFailedError (Some (JStr ''boom''))"
proof -
  have h: "\<forall>j<60. stillRunning (alwaysPending j)"
    by (simp add: stillRunning_def alwaysPending_def taskWithStatus_def)
  from waitForTaskCompletion_timeout [OF h] show ?thesis by simp
qed

section \<open>Validating the credits\<close>

text \<open>An entry with its three required fields is an object; the callback maps an entry
  without them to \<open>null\<close>, and an entry with them to itself with only its credits
  changed.\<close>

lemma hasRequired_obj: "hasRequired item \<Longrightarrow> \<exists>props. item = JObj props"
  by (cases item) (simp_all add: hasRequired_def)

lemma cleanItem_dropped:
  "item \<noteq> JNull \<Longrightarrow> \<not> hasRequired item \<Longrightarrow> cleanItem item = Inr JNull"
  by (auto simp: cleanItem_def hasRequired_def)

lemma cleanItem_kept:
  assumes "hasRequired item" and "cleanItem item = Inr cleaned"
  shows "cleaned \<noteq> JNull \<and> withoutCredits cleaned = withoutCredits item"
proof -
  obtain props where p: "item = JObj props" using assms(1) hasRequired_obj by blast
  obtain kept where "cleaned = setProp item ''credits'' (JArr kept)"
    using assms by (auto simp: cleanItem_def hasRequired_def split: if_splits sum.splits)
  then show ?thesis using p by (simp add: delete_update_same)
qed

text \<open>What is left of the mapped list after the \<open>null\<close>s are filtered out is, credits
  apart, the list of the entries with the required fields, in the order of the input.\<close>

lemma mapItems_order:
  "mapItems items = Inr mapped \<Longrightarrow>
   map withoutCredits (filter (\<lambda>item. item \<noteq> JNull) mapped)
     = map withoutCredits (filter hasRequired items)"
proof (induction items arbitrary: mapped)
  case Nil
  then show ?case by simp
next
  case (Cons item rest)
  from Cons.prems obtain cleaned mapped' where c: "cleanItem item = Inr cleaned"
    and m: "mapItems rest = Inr mapped'" and mapped: "mapped = cleaned # mapped'"
    by (auto split: sum.splits)
  have ih: "map withoutCredits (filter (\<lambda>item. item \<noteq> JNull) mapped')
     = map withoutCredits (filter hasRequired rest)"
    using Cons.IH m by simp
  show ?case
  proof (cases "hasRequired item")
    case True
    then show ?thesis using cleanItem_kept [OF True c] ih mapped by simp
  next
    case False
    have "item \<noteq> JNull" using c by (auto simp: cleanItem_def)
    then have "cleaned = JNull" using cleanItem_dropped False c by simp
    then show ?thesis using False ih mapped by simp
  qed
qed

text \<open>Nothing throws when no entry and no credit line is \<open>null\<close>.\<close>

lemma filterCredits_total:
  "JNull \<notin> set lines \<Longrightarrow> \<exists>kept. filterCredits lines = Inr kept"
  by (induction lines) (auto simp: creditFilter_def)

lemma cleanItem_total:
  "item \<noteq> JNull \<Longrightarrow> JNull \<notin> set (creditLines item) \<Longrightarrow> \<exists>cleaned. cleanItem item = Inr cleaned"
  using filterCredits_total [of "creditLines item"]
  by (auto simp: cleanItem_def simp del: creditLines.simps)

lemma mapItems_total:
  "\<forall>x\<in>set items. x \<noteq> JNull \<and> JNull \<notin> set (creditLines x) \<Longrightarrow>
   \<exists>mapped. mapItems items = Inr mapped"
proof (induction items)
  case Nil
  then show ?case by simp
next
  case (Cons item rest)
  then obtain cleaned mapped where "cleanItem item = Inr cleaned" "mapItems rest = Inr mapped"
    using cleanItem_total [of item] by auto
  then show ?case by simp
qed

text \<open>An entry without a required field leaves a \<open>null\<close> at its place and changes
  nothing else.\<close>

lemma mapItems_dropped:
  "item \<noteq> JNull \<Longrightarrow> \<not> hasRequired item \<Longrightarrow>
   mapItems (pre @ item # post)
     = (case mapItems (pre @ post) of
          Inl e \<Rightarrow> Inl e
        | Inr mapped \<Rightarrow> Inr (take (length pre) mapped @ JNull # drop (length pre) mapped))"
proof (induction pre)
  case Nil
  then show ?case by (simp add: cleanItem_dropped split: sum.splits)
next
  case (Cons x pre)
  then show ?case by (simp split: sum.splits)
qed

lemma example_validate:
  "validateAndCleanCredits (Some (JArr exampleCredits))
     = Inr [JObj [(''rank'', JNum 1), (''artist'', JStr ''A''), (''title'', JStr ''B''),
                  (''album'', JStr ''C''),
                  (''credits'', JArr [JObj [(''role'', JStr ''PRODUCER''), (''people'', JStr ''X'')]])],
            JObj [(''rank'', JNum 3), (''artist'', JStr ''E''), (''title'', JStr ''F''),
                  (''credits'', JArr [])]]"
  by (simp add: validateAndCleanCredits_def exampleCredits_def entryA_def entryNoTitle_def
        entryNoCredits_def cleanItem_def creditFilter_def)

text \<open>
  What holds for every array payload: whenever \<open>validateAndCleanCredits\<close> returns,
  its output is, credits apart, exactly the list of the input entries that have rank,
  artist and title, in their input order (nothing is reordered, and an entry without one
  of the three is not in the output); it does return whenever no entry and no credit line
  of the payload is \<open>null\<close>; and an entry other than \<open>null\<close> without rank, artist or
  title is dropped without aborting: the outcome is the same as for the payload without
  that entry.
\<close>

theorem validateAndCleanCredits_keeps_order:
  "(\<forall>out. validateAndCleanCredits (Some (JArr items)) = Inr out \<longrightarrow>
        map withoutCredits out = map withoutCredits (filter hasRequired items))
   \<and> ((\<forall>x\<in>set items. x \<noteq> JNull \<and> JNull \<notin> set (creditLines x)) \<longrightarrow>
        (\<exists>out. validateAndCleanCredits (Some (JArr items)) = Inr out))
   \<and> (\<forall>pre item post. items = pre @ item # post \<and> item \<noteq> JNull \<and> \<not> hasRequired item \<longrightarrow>
        validateAndCleanCredits (Some (JArr items)) = validateAndCleanCredits (Some (JArr (pre @ post))))"
proof (intro conjI allI impI)
  fix out
  assume "validateAndCleanCredits (Some (JArr items)) = Inr out"
  then obtain mapped where "mapItems items = Inr mapped"
    and "out = filter (\<lambda>item. item \<noteq> JNull) mapped"
    by (auto simp: validateAndCleanCredits_def split: sum.splits)
  then show "map withoutCredits out = map withoutCredits (filter hasRequired items)"
    using mapItems_order by simp
next
  assume "\<forall>x\<in>set items. x \<noteq> JNull \<and> JNull \<notin> set (creditLines x)"
  then obtain mapped where "mapItems items = Inr mapped" using mapItems_total by blast
  then show "\<exists>out. validateAndCleanCredits (Some (JArr items)) = Inr out"
    by (simp add: validateAndCleanCredits_def)
next
  fix pre item post
  assume a: "items = pre @ item # post \<and> item \<noteq> JNull \<and> \<not> hasRequired item"
  then have "mapItems items
     = (case mapItems (pre @ post) of
          Inl e \<Rightarrow> Inl e
        | Inr mapped \<Rightarrow> Inr (take (length pre) mapped @ JNull # drop (length pre) mapped))"
    using mapItems_dropped by simp
  moreover have "filter (\<lambda>item. item \<noteq> JNull)
                    (take (length pre) mapped @ JNull # drop (length pre) mapped)
                  = filter (\<lambda>item. item \<noteq> JNull) mapped" for mapped
  proof -
    have "filter (\<lambda>item. item \<noteq> JNull)
            (take (length pre) mapped @ JNull # drop (length pre) mapped)
          = filter (\<lambda>item. item \<noteq> JNull) (take (length pre) mapped @ drop (length pre) mapped)"
      by (simp del: append_take_drop_id)
    then show ?thesis by simp
  qed
  ultimately show "validateAndCleanCredits (Some (JArr items))
      = validateAndCleanCredits (Some (JArr (pre @ post)))"
    by (simp add: validateAndCleanCredits_def split: sum.splits)
qed

theorem validateAndCleanCredits_keeps_order_witness:
  "(\<exists>out. validateAndCleanCredits (Some (JArr exampleCredits)) = Inr out
       \<and> map withoutCredits out = map withoutCredits [entryA, entryNoCredits])
   \<and> validateAndCleanCredits (Some (JArr exampleCredits))
       = validateAndCleanCredits (Some (JArr [entryA, entryNoCredits]))"
proof -
  have wf: "\<forall>x\<in>set exampleCredits. x \<noteq> JNull \<and> JNull \<notin> set (creditLines x)"
    by (simp add: exampleCredits_def entryA_def entryNoTitle_def entryNoCredits_def)
  have req: "filter hasRequired exampleCredits = [entryA, entryNoCredits]"
    by (simp add: exampleCredits_def entryA_def entryNoTitle_def entryNoCredits_def hasRequired_def)
  have sp: "exampleCredits = [entryA] @ entryNoTitle # [entryNoCredits]
      \<and> entryNoTitle \<noteq> JNull \<and> \<not> hasRequired entryNoTitle"
    by (simp add: exampleCredits_def entryNoTitle_def hasRequired_def)
  note inst = validateAndCleanCredits_keeps_order [of exampleCredits]
  from inst wf obtain out where out: "validateAndCleanCredits (Some (JArr exampleCredits)) = Inr out"
    by blast
  with inst have "map withoutCredits out = map withoutCredits (filter hasRequired exampleCredits)"
    by blast
  then have a: "validateAndCleanCredits (Some (JArr exampleCredits)) = Inr out
       \<and> map withoutCredits out = map withoutCredits [entryA, entryNoCredits]"
    using out req by simp
  from inst sp have "validateAndCleanCredits (Some (JArr exampleCredits))
       = validateAndCleanCredits (Some (JArr ([entryA] @ [entryNoCredits])))"
    by blast
  then have b: "validateAndCleanCredits (Some (JArr exampleCredits))
       = validateAndCleanCredits (Some (JArr [entryA, entryNoCredits]))"
    by simp
  from a b show ?thesis by blast
qed

text \<open>
  Claim C7. For every array payload, entries without rank, artist or title are dropped
  without aborting and the remaining entries appear in their input order. The source
  does so for every entry that is an object, but it reads \<open>item.rank\<close> of a \<open>null\<close>
  entry and \<open>credit.role\<close> of a \<open>null\<close> credit line without a guard: on the payload
  of a good entry followed by \<open>null\<close>, and on the payload of one entry whose credits are
  \<open>[null]\<close>, it throws a TypeError and returns nothing, where the payload of the good
  entry alone returns that entry.
\<close>

theorem validateAndCleanCredits_null_aborts:
  "validateAndCleanCredits (Some (JArr [entryNoCredits, JNull])) = Inl TypeError
   \<and> validateAndCleanCredits
         (Some (JArr [JObj [(''rank'', JNum 1), (''artist'', JStr ''A''), (''title'', JStr ''B''),
                            (''credits'', JArr [JNull])]])) = Inl TypeError
   \<and> validateAndCleanCredits (Some (JArr [entryNoCredits]))
       = Inr [JObj [(''rank'', JNum 3), (''artist'', JStr ''E''), (''title'', JStr ''F''),
                    (''credits'', JArr [])]]"
  by (simp add: validateAndCleanCredits_def entryNoCredits_def cleanItem_def creditFilter_def)

section \<open>The loop over the credited entries\<close>

text \<open>The results pushed so far stay in front; one turn of the loop; the loop over a
  list in two parts.\<close>

lemma collectLoop_acc:
  "collectLoop lower api items results w
     = (results @ fst (collectLoop lower api items [] w), snd (collectLoop lower api items [] w))"
proof (induction items arbitrary: results w)
  case Nil
  show ?case by simp
next
  case (Cons item rest)
  obtain y w' where s: "searchYouTubeVideo lower api w (map_of item ''artist'') (map_of item ''title'') = (y, w')"
    by (cases "searchYouTubeVideo lower api w (map_of item ''artist'') (map_of item ''title'')")
  show ?case
    using Cons.IH [of "results @ [AList.update ''youtube'' y item]" w']
      Cons.IH [of "[AList.update ''youtube'' y item]" w']
    by (simp add: s)
qed

lemma collectLoop_Cons:
  "collectLoop lower api (item # rest) [] w
     = (let (y, w') = searchYouTubeVideo lower api w (map_of item ''artist'') (map_of item ''title'')
        in (AList.update ''youtube'' y item # fst (collectLoop lower api rest [] w'),
            snd (collectLoop lower api rest [] w')))"
proof -
  obtain y w' where s: "searchYouTubeVideo lower api w (map_of item ''artist'') (map_of item ''title'') = (y, w')"
    by (cases "searchYouTubeVideo lower api w (map_of item ''artist'') (map_of item ''title'')")
  show ?thesis
    using collectLoop_acc [of lower api rest "[AList.update ''youtube'' y item]" w']
    by (simp add: s)
qed

lemma collectLoop_length:
  "length (fst (collectLoop lower api items [] w)) = length items"
  by (induction items arbitrary: w) (simp_all add: collectLoop_Cons split: prod.splits del: collectLoop.simps(2))

lemma collectLoop_append:
  "collectLoop lower api (xs @ ys) [] w
     = (fst (collectLoop lower api xs [] w)
          @ fst (collectLoop lower api ys [] (snd (collectLoop lower api xs [] w))),
        snd (collectLoop lower api ys [] (snd (collectLoop lower api xs [] w))))"
  by (induction xs arbitrary: w) (simp_all add: collectLoop_Cons split: prod.splits del: collectLoop.simps(2))

text \<open>The result at the position \<open>i\<close> is the entry at \<open>i\<close> with the outcome of its
  own search as its \<open>youtube\<close> property.\<close>

lemma collect_nth:
  assumes "i < length items"
  shows "fst (collectAllYouTubeLinks lower api items w) ! i
           = AList.update ''youtube'' (searchOf lower api items w i) (items ! i)"
proof -
  let ?w = "worldBefore lower api items w i"
  have items: "items = take i items @ (items ! i # drop (Suc i) items)"
    using assms by (simp add: id_take_nth_drop)
  have len: "length (fst (collectLoop lower api (take i items) [] w)) = i"
    using assms by (simp add: collectLoop_length)
  have "fst (collectLoop lower api items [] w)
      = fst (collectLoop lower api (take i items) [] w)
          @ fst (collectLoop lower api (items ! i # drop (Suc i) items) [] ?w)"
    by (subst items, subst collectLoop_append)
       (simp add: worldBefore_def collectAllYouTubeLinks_def)
  then have "fst (collectLoop lower api items [] w) ! i
      = fst (collectLoop lower api (items ! i # drop (Suc i) items) [] ?w) ! 0"
    using len by (simp add: nth_append)
  also have "\<dots> = AList.update ''youtube'' (searchOf lower api items w i) (items ! i)"
    by (simp add: collectLoop_Cons searchOf_def split: prod.splits del: collectLoop.simps(2))
  finally show ?thesis by (simp add: collectAllYouTubeLinks_def)
qed

text \<open>A search returns \<open>null\<close> or the match of a video, and \<open>null\<close> when the
  provider gives no usable candidate.\<close>

lemma search_result_kind:
  "fst (searchYouTubeVideo lower api w artist title) = JNull
   \<or> (\<exists>v. fst (searchYouTubeVideo lower api w artist title) = videoMatch v)"
  by (auto simp: searchYouTubeVideo_def Let_def split: prod.splits sum.splits option.splits)

lemma search_no_candidate:
  "noUsableCandidate lower (fst (api w (templateStr artist @ '' '' @ templateStr title))) artist title
   \<Longrightarrow> fst (searchYouTubeVideo lower api w artist title) = JNull"
  by (auto simp: searchYouTubeVideo_def noUsableCandidate_def Let_def
           split: prod.splits sum.splits option.splits)

lemma update_absent:
  "k \<notin> fst ` set al \<Longrightarrow> AList.update k v al = al @ [(k, v)]"
  by (induction al) auto

lemma example_collect:
  "collectAllYouTubeLinks asciiLower flakySearch
     [exampleEntry 1, exampleEntry 2, exampleEntry 3, exampleEntry 4] 0
   = ([exampleEntry 1 @ [(''youtube'', JNull)],
       exampleEntry 2 @ [(''youtube'', JNull)],
       exampleEntry 3 @ [(''youtube'', JNull)],
       exampleEntry 4 @ [(''youtube'', videoMatch videoOfficial)]], 4)"
  by (simp add: collectAllYouTubeLinks_def searchYouTubeVideo_def flakySearch_def exampleEntry_def
        findBestVideo_def scoreVideo_string example_scores)

text \<open>
  Claim C10. For every input list, the output of \<open>collectAllYouTubeLinks\<close> has the
  length of the input, and its element at each position is the input entry at that
  position with the \<open>youtube\<close> property set to \<open>null\<close> or to a video match: every
  other property reads as in the input entry, and when the input entry has no
  \<open>youtube\<close> property the output element is the input entry with that one property
  added at its end.
\<close>

theorem collectAllYouTubeLinks_frame:
  "length (fst (collectAllYouTubeLinks lower api items w)) = length items
   \<and> (\<forall>i<length items. \<exists>y.
         fst (collectAllYouTubeLinks lower api items w) ! i = AList.update ''youtube'' y (items ! i)
       \<and> (y = JNull \<or> (\<exists>v. y = videoMatch v))
       \<and> map_of (fst (collectAllYouTubeLinks lower api items w) ! i) ''youtube'' = Some y
       \<and> (\<forall>k. k \<noteq> ''youtube'' \<longrightarrow>
             map_of (fst (collectAllYouTubeLinks lower api items w) ! i) k = map_of (items ! i) k)
       \<and> (''youtube'' \<notin> fst ` set (items ! i) \<longrightarrow>
             fst (collectAllYouTubeLinks lower api items w) ! i = items ! i @ [(''youtube'', y)]))"
proof (intro conjI allI impI)
  show "length (fst (collectAllYouTubeLinks lower api items w)) = length items"
    by (simp add: collectAllYouTubeLinks_def collectLoop_length)
next
  fix i assume i: "i < length items"
  let ?y = "searchOf lower api items w i"
  let ?r = "fst (collectAllYouTubeLinks lower api items w) ! i"
  have r: "?r = AList.update ''youtube'' ?y (items ! i)" using i by (rule collect_nth)
  have kind: "?y = JNull \<or> (\<exists>v. ?y = videoMatch v)"
    unfolding searchOf_def by (rule search_result_kind)
  have yt: "map_of ?r ''youtube'' = Some ?y" by (simp add: r update_conv')
  have others: "\<forall>k. k \<noteq> ''youtube'' \<longrightarrow> map_of ?r k = map_of (items ! i) k"
    by (simp add: r update_conv')
  have fresh: "''youtube'' \<notin> fst ` set (items ! i) \<longrightarrow> ?r = items ! i @ [(''youtube'', ?y)]"
    by (simp add: r update_absent)
  show "\<exists>y. ?r = AList.update ''youtube'' y (items ! i)
       \<and> (y = JNull \<or> (\<exists>v. y = videoMatch v))
       \<and> map_of ?r ''youtube'' = Some y
       \<and> (\<forall>k. k \<noteq> ''youtube'' \<longrightarrow> map_of ?r k = map_of (items ! i) k)
       \<and> (''youtube'' \<notin> fst ` set (items ! i) \<longrightarrow> ?r = items ! i @ [(''youtube'', y)])"
    using r kind yt others fresh by blast
qed

theorem collectAllYouTubeLinks_frame_witness:
  "length (fst (collectAllYouTubeLinks asciiLower flakySearch
       [exampleEntry 1, exampleEntry 2, exampleEntry 3, exampleEntry 4] 0)) = 4
   \<and> fst (collectAllYouTubeLinks asciiLower flakySearch
       [exampleEntry 1, exampleEntry 2, exampleEntry 3, exampleEntry 4] 0) ! 3
       = exampleEntry 4 @ [(''youtube'', videoMatch videoOfficial)]
   \<and> map_of (fst (collectAllYouTubeLinks asciiLower flakySearch
       [exampleEntry 1, exampleEntry 2, exampleEntry 3, exampleEntry 4] 0) ! 3) ''artist''
       = map_of (exampleEntry 4) ''artist''"
  using collectAllYouTubeLinks_frame [where lower = asciiLower and api = flakySearch
      and items = "[exampleEntry 1, exampleEntry 2, exampleEntry 3, exampleEntry 4]" and w = 0]
  by (simp add: example_collect) (simp add: exampleEntry_def)

text \<open>
  Claim C8. For every input list and every behaviour of the search provider,
  \<open>collectAllYouTubeLinks\<close> completes over the whole list (the output has the length
  of the input); the element at each position is the entry at that position with the
  outcome of its own search, made in the state of the world the earlier searches left,
  whatever those earlier searches did; and where the provider rejects the request of an
  entry or gives no usable candidate for it, that entry is recorded with
  \<open>youtube = null\<close>.
\<close>

theorem collectAllYouTubeLinks_isolates_failures:
  "length (fst (collectAllYouTubeLinks lower api items w)) = length items
   \<and> (\<forall>i<length items.
         fst (collectAllYouTubeLinks lower api items w) ! i
           = AList.update ''youtube'' (searchOf lower api items w i) (items ! i))
   \<and> (\<forall>i<length items.
         noUsableCandidate lower
           (fst (api (worldBefore lower api items w i)
                   (templateStr (map_of (items ! i) ''artist'') @ '' ''
                      @ templateStr (map_of (items ! i) ''title''))))
           (map_of (items ! i) ''artist'') (map_of (items ! i) ''title'')
         \<longrightarrow> map_of (fst (collectAllYouTubeLinks lower api items w) ! i) ''youtube'' = Some JNull)"
proof (intro conjI allI impI)
  show "length (fst (collectAllYouTubeLinks lower api items w)) = length items"
    by (simp add: collectAllYouTubeLinks_def collectLoop_length)
next
  fix i assume "i < length items"
  then show "fst (collectAllYouTubeLinks lower api items w) ! i
           = AList.update ''youtube'' (searchOf lower api items w i) (items ! i)"
    by (rule collect_nth)
next
  fix i assume i: "i < length items"
    and no: "noUsableCandidate lower
           (fst (api (worldBefore lower api items w i)
                   (templateStr (map_of (items ! i) ''artist'') @ '' ''
                      @ templateStr (map_of (items ! i) ''title''))))
           (map_of (items ! i) ''artist'') (map_of (items ! i) ''title'')"
  have "searchOf lower api items w i = JNull"
    unfolding searchOf_def using no by (rule search_no_candidate)
  then show "map_of (fst (collectAllYouTubeLinks lower api items w) ! i) ''youtube'' = Some JNull"
    using collect_nth [OF i, of lower api w] by (simp add: update_conv')
qed

theorem collectAllYouTubeLinks_isolates_failures_witness:
  "fst (collectAllYouTubeLinks asciiLower flakySearch
       [exampleEntry 1, exampleEntry 2, exampleEntry 3, exampleEntry 4] 0)
     = [exampleEntry 1 @ [(''youtube'', JNull)],
        exampleEntry 2 @ [(''youtube'', JNull)],
        exampleEntry 3 @ [(''youtube'', JNull)],
        exampleEntry 4 @ [(''youtube'', videoMatch videoOfficial)]]
   \<and> fst (flakySearch 0 ''Artist Song'') = Inl (RequestError ''quotaExceeded'')
   \<and> map_of (fst (collectAllYouTubeLinks asciiLower flakySearch
       [exampleEntry 1, exampleEntry 2, exampleEntry 3, exampleEntry 4] 0) ! 0) ''youtube'' = Some JNull
   \<and> map_of (fst (collectAllYouTubeLinks asciiLower flakySearch
       [exampleEntry 1, exampleEntry 2, exampleEntry 3, exampleEntry 4] 0) ! 3) ''youtube''
       = Some (videoMatch videoOfficial)"
proof -
  let ?items = "[exampleEntry 1, exampleEntry 2, exampleEntry 3, exampleEntry 4]"
  have w0: "worldBefore asciiLower flakySearch ?items 0 0 = 0"
    by (simp add: worldBefore_def collectAllYouTubeLinks_def)
  have no: "noUsableCandidate asciiLower
           (fst (flakySearch (worldBefore asciiLower flakySearch ?items 0 0)
                   (templateStr (map_of (?items ! 0) ''artist'') @ '' ''
                      @ templateStr (map_of (?items ! 0) ''title''))))
           (map_of (?items ! 0) ''artist'') (map_of (?items ! 0) ''title'')"
    by (simp add: w0 noUsableCandidate_def flakySearch_def)
  have "0 < length ?items" by simp
  with collectAllYouTubeLinks_isolates_failures [where lower = asciiLower and api = flakySearch
      and items = ?items and w = 0] no
  have "map_of (fst (collectAllYouTubeLinks asciiLower flakySearch ?items 0) ! 0) ''youtube'' = Some JNull"
    by blast
  then show ?thesis
    by (simp add: example_collect flakySearch_def) (simp add: exampleEntry_def)
qed

section \<open>Snapshots\<close>

text \<open>A save whose two paths can be written sets both files to the document; the
  loader reads the data of the document at the latest alias.\<close>

lemma saveSnapshot_ok:
  assumes "writable fs (datedPath kind dataDir now1)" and "writable fs (latestPath kind dataDir)"
  shows "saveSnapshot kind source dataDir now1 now2 payload fs
     = (Inr (datedPath kind dataDir now1),
        fs\<lparr>files := (files fs)(datedPath kind dataDir now1 \<mapsto> JsonFile (snapshotDoc now2 source payload),
                               latestPath kind dataDir \<mapsto> JsonFile (snapshotDoc now2 source payload))\<rparr>)"
  using assms
  by (simp add: saveSnapshot_def writeFile_def Let_def datedPath_def latestPath_def snapshotDoc_def)

lemma loadLatest_written:
  "files fs (latestPath kind dataDir) = Some (JsonFile (snapshotDoc now2 source payload)) \<Longrightarrow>
   loadLatest kind message dataDir fs = Inr (JArr payload)"
  by (simp add: loadLatest_def latestPath_def snapshotDoc_def)

text \<open>Two saves of one kind on the same date, for a kind whose dated file is not its
  latest alias: the disk after the second save is the disk a single save of the second
  payload leaves.\<close>

lemma saveSnapshot_twice:
  assumes same: "isoDate t2 = isoDate t1"
    and apart: "datedPath kind dataDir t1 \<noteq> latestPath kind dataDir"
    and w1: "writable fs (datedPath kind dataDir t1)"
    and w2: "writable fs (latestPath kind dataDir)"
  shows "fst (saveSnapshot kind source dataDir t2 t2' payload2
               (snd (saveSnapshot kind source dataDir t1 t1' payload1 fs)))
           = Inr (datedPath kind dataDir t1)
     \<and> snd (saveSnapshot kind source dataDir t2 t2' payload2
               (snd (saveSnapshot kind source dataDir t1 t1' payload1 fs)))
           = snd (saveSnapshot kind source dataDir t2 t2' payload2 fs)
     \<and> files (snd (saveSnapshot kind source dataDir t2 t2' payload2
               (snd (saveSnapshot kind source dataDir t1 t1' payload1 fs)))) (datedPath kind dataDir t1)
           = Some (JsonFile (snapshotDoc t2' source payload2))
     \<and> loadLatest kind message dataDir
           (snd (saveSnapshot kind source dataDir t2 t2' payload2
               (snd (saveSnapshot kind source dataDir t1 t1' payload1 fs))))
           = Inr (JArr payload2)"
proof -
  let ?d = "datedPath kind dataDir t1"
  let ?l = "latestPath kind dataDir"
  let ?doc1 = "JsonFile (snapshotDoc t1' source payload1)"
  let ?doc2 = "JsonFile (snapshotDoc t2' source payload2)"
  let ?fs1 = "fs\<lparr>files := (files fs)(?d \<mapsto> ?doc1, ?l \<mapsto> ?doc1)\<rparr>"
  let ?fs2 = "fs\<lparr>files := (files fs)(?d \<mapsto> ?doc2, ?l \<mapsto> ?doc2)\<rparr>"
  have d2: "datedPath kind dataDir t2 = ?d" using same by (simp add: datedPath_def)
  have s1: "saveSnapshot kind source dataDir t1 t1' payload1 fs = (Inr ?d, ?fs1)"
    using w1 w2 by (rule saveSnapshot_ok)
  have "saveSnapshot kind source dataDir t2 t2' payload2 ?fs1
          = (Inr (datedPath kind dataDir t2),
             ?fs1\<lparr>files := (files ?fs1)(datedPath kind dataDir t2 \<mapsto> ?doc2, ?l \<mapsto> ?doc2)\<rparr>)"
    by (rule saveSnapshot_ok) (simp_all add: w1 w2 d2)
  moreover have "(files ?fs1)(?d \<mapsto> ?doc2, ?l \<mapsto> ?doc2) = (files fs)(?d \<mapsto> ?doc2, ?l \<mapsto> ?doc2)"
    using apart by (auto simp: fun_eq_iff)
  ultimately have s12: "saveSnapshot kind source dataDir t2 t2' payload2 ?fs1 = (Inr ?d, ?fs2)"
    by (simp add: d2)
  have s2: "saveSnapshot kind source dataDir t2 t2' payload2 fs = (Inr ?d, ?fs2)"
    using saveSnapshot_ok [of fs kind dataDir t2 source t2' payload2] w1 w2 by (simp add: d2)
  have l: "loadLatest kind message dataDir ?fs2 = Inr (JArr payload2)"
    by (rule loadLatest_written [where ?now2.0 = t2' and source = source]) simp
  show ?thesis using apart by (simp add: s1 s12 s2 l)
qed

lemma credits_paths_apart: "datedPath ''credits'' dataDir t \<noteq> latestPath ''credits'' dataDir"
  by (simp add: datedPath_def latestPath_def path_join_def)

lemma youtube_paths_apart: "datedPath ''youtube'' dataDir t \<noteq> latestPath ''youtube'' dataDir"
  by (simp add: datedPath_def latestPath_def path_join_def)

text \<open>
  Claim C9. Writing a snapshot of the same kind (credits, YouTube) twice within the same
  period, that is with the same date in both file names, overwrites: when the two files
  of the kind can be written, the disk after the two writes is the disk that the second
  write alone leaves, the dated file holds the second document only, and the loader of
  the latest alias returns the second payload.
\<close>

theorem snapshot_rewrite_overwrites:
  assumes "isoDate t2 = isoDate t1"
    and "writable fs (datedPath ''credits'' dataDir t1)"
    and "writable fs (latestPath ''credits'' dataDir)"
    and "writable fs (datedPath ''youtube'' dataDir t1)"
    and "writable fs (latestPath ''youtube'' dataDir)"
  shows "snd (saveCreditsData dataDir t2 t2' payload2 (snd (saveCreditsData dataDir t1 t1' payload1 fs)))
           = snd (saveCreditsData dataDir t2 t2' payload2 fs)
     \<and> files (snd (saveCreditsData dataDir t2 t2' payload2 (snd (saveCreditsData dataDir t1 t1' payload1 fs))))
           (datedPath ''credits'' dataDir t1)
           = Some (JsonFile (snapshotDoc t2' ''manus-agent-tidal'' payload2))
     \<and> loadLatestCreditsData dataDir
           (snd (saveCreditsData dataDir t2 t2' payload2 (snd (saveCreditsData dataDir t1 t1' payload1 fs))))
           = Inr (JArr payload2)
     \<and> snd (saveYouTubeData dataDir t2 t2' payload2 (snd (saveYouTubeData dataDir t1 t1' payload1 fs)))
           = snd (saveYouTubeData dataDir t2 t2' payload2 fs)
     \<and> files (snd (saveYouTubeData dataDir t2 t2' payload2 (snd (saveYouTubeData dataDir t1 t1' payload1 fs))))
           (datedPath ''youtube'' dataDir t1)
           = Some (JsonFile (snapshotDoc t2' ''youtube-api-v3'' payload2))
     \<and> loadLatestYouTubeData dataDir
           (snd (saveYouTubeData dataDir t2 t2' payload2 (snd (saveYouTubeData dataDir t1 t1' payload1 fs))))
           = Inr (JArr payload2)"
proof -
  note credits = saveSnapshot_twice [OF assms(1) credits_paths_apart assms(2,3),
          where source = "''manus-agent-tidal''" and t2' = t2' and t1' = t1'
            and ?payload1.0 = payload1 and ?payload2.0 = payload2
            and message = "''Credits data not found. Run trigger-manus-agent.js first.''"]
  note youtube = saveSnapshot_twice [OF assms(1) youtube_paths_apart assms(4,5),
          where source = "''youtube-api-v3''" and t2' = t2' and t1' = t1'
            and ?payload1.0 = payload1 and ?payload2.0 = payload2
            and message = "''YouTube data not found. Run get-youtube-links.js first.''"]
  show ?thesis
    unfolding saveCreditsData_def saveYouTubeData_def loadLatestCreditsData_def
      loadLatestYouTubeData_def
    using credits youtube by blast
qed

theorem snapshot_rewrite_overwrites_witness:
  "isoDate ''2026-11-03T18:30:00.000Z'' = isoDate ''2026-11-03T09:00:00.000Z''
   \<and> loadLatestCreditsData ''./data''
        (snd (saveCreditsData ''./data'' ''2026-11-03T18:30:00.000Z'' ''2026-11-03T18:30:00.001Z'' [entryNoCredits]
           (snd (saveCreditsData ''./data'' ''2026-11-03T09:00:00.000Z'' ''2026-11-03T09:00:00.001Z''
                   [entryA, entryNoCredits] emptyDisk))))
       = Inr (JArr [entryNoCredits])
   \<and> files (snd (saveCreditsData ''./data'' ''2026-11-03T18:30:00.000Z'' ''2026-11-03T18:30:00.001Z'' [entryNoCredits]
           (snd (saveCreditsData ''./data'' ''2026-11-03T09:00:00.000Z'' ''2026-11-03T09:00:00.001Z''
                   [entryA, entryNoCredits] emptyDisk))))
         ''./data/credits-2026-11-03.json''
       = Some (JsonFile (snapshotDoc ''2026-11-03T18:30:00.001Z'' ''manus-agent-tidal'' [entryNoCredits]))"
proof -
  have h1: "isoDate ''2026-11-03T18:30:00.000Z'' = isoDate ''2026-11-03T09:00:00.000Z''"
    by (simp add: isoDate_def)
  have p: "datedPath ''credits'' ''./data'' ''2026-11-03T09:00:00.000Z'' = ''./data/credits-2026-11-03.json''"
    by (simp add: datedPath_def path_join_def isoDate_def)
  have w: "writable emptyDisk q" for q by (simp add: emptyDisk_def)
  note inst = snapshot_rewrite_overwrites [OF h1 w w w w, where dataDir = "''./data''"
      and t2' = "''2026-11-03T18:30:00.001Z''" and ?payload2.0 = "[entryNoCredits]"
      and t1' = "''2026-11-03T09:00:00.001Z''" and ?payload1.0 = "[entryA, entryNoCredits]"]
  have a: "loadLatestCreditsData ''./data''
        (snd (saveCreditsData ''./data'' ''2026-11-03T18:30:00.000Z'' ''2026-11-03T18:30:00.001Z'' [entryNoCredits]
           (snd (saveCreditsData ''./data'' ''2026-11-03T09:00:00.000Z'' ''2026-11-03T09:00:00.001Z''
                   [entryA, entryNoCredits] emptyDisk))))
       = Inr (JArr [entryNoCredits])"
    using inst by blast
  have b: "files (snd (saveCreditsData ''./data'' ''2026-11-03T18:30:00.000Z'' ''2026-11-03T18:30:00.001Z'' [entryNoCredits]
           (snd (saveCreditsData ''./data'' ''2026-11-03T09:00:00.000Z'' ''2026-11-03T09:00:00.001Z''
                   [entryA, entryNoCredits] emptyDisk))))
         (datedPath ''credits'' ''./data'' ''2026-11-03T09:00:00.000Z'')
       = Some (JsonFile (snapshotDoc ''2026-11-03T18:30:00.001Z'' ''manus-agent-tidal'' [entryNoCredits]))"
    using inst by blast
  show ?thesis using h1 a b unfolding p by blast
qed

end
